theory Spec2Isabelle
  imports Complex_Main "HOL-Library.Log_Nat"
begin

section \<open>The face verification page\<close>

text \<open>
  The component \<open>Home\<close> keeps four state variables (\<open>uploadedImage\<close>, \<open>cameraImage\<close>,
  \<open>verificationResult\<close>, \<open>isLoading\<close>) and three refs (\<open>videoRef\<close>, \<open>canvasRef\<close>,
  \<open>streamRef\<close>). Its handlers are \<open>handleImageUpload\<close>, \<open>startCamera\<close>, \<open>captureImage\<close> and
  \<open>verifyFaces\<close>. The library face-api.js, the browser's media devices, canvas and
  FileReader, and \<open>Number.prototype.toFixed\<close> are not code of the component: they are
  parameters of the model. A JavaScript number is an IEEE 754 double, with its rounding.
\<close>

subsection \<open>Values\<close>

text \<open>A thrown JavaScript value, kept as its message.\<close>

type_synonym exn = string

type_synonym track = nat

datatype stream = MediaStream (getTracks: "track list")

record video =
  videoWidth :: nat
  videoHeight :: nat
  srcObject :: "stream option"

record canvas =
  width :: nat
  height :: nat
  pixels :: "nat list"

type_synonym jsfile = string

subsection \<open>Numbers\<close>

text \<open>
  A JavaScript number: a double with the real value it has, the two infinities and \<open>NaN\<close>.
  The two zeros are one value here: comparing with a number, dividing by a positive
  number, subtracting from 1, multiplying by 100 and \<open>toFixed\<close> give the same for both.
\<close>

datatype number = Finite real | PosInf | NegInf | NaN

definition pow2 :: "int \<Rightarrow> real" where
  "pow2 e = (if 0 \<le> e then 2 ^ nat e else 1 / 2 ^ nat (- e))"

text \<open>For \<open>a > 0\<close>, the \<open>e\<close> with \<open>2^e \<le> a < 2^(e+1)\<close>.\<close>

definition exponent :: "real \<Rightarrow> int" where
  "exponent a = (if 1 \<le> a then bitlen \<lfloor>a\<rfloor> - 1 else - bitlen (\<lceil>1 / a\<rceil> - 1))"

definition round_half_even :: "real \<Rightarrow> int" where
  "round_half_even q =
     (let f = \<lfloor>q\<rfloor>; r = q - of_int f
      in if r < 1 / 2 then f else if 1 / 2 < r then f + 1 else if even f then f else f + 1)"

text \<open>
  The double nearest to a real, ties to the even significand: 53 bits of significand, the
  exponent not below \<open>-1022\<close> (subnormal numbers below that), infinity from \<open>2^1024\<close> on.
\<close>

definition fl :: "real \<Rightarrow> number" where
  "fl x =
     (if x = 0 then Finite 0
      else let a = \<bar>x\<bar>;
               e = max (exponent a) (- 1022);
               u = pow2 (e - 52);
               r = of_int (round_half_even (a / u)) * u
           in if pow2 1024 \<le> r then (if 0 < x then PosInf else NegInf)
              else Finite (if 0 < x then r else - r))"

text \<open>
  The four operations of lines 129 and 132, each between a number and a literal of the
  source, which is finite and positive: \<open>x < t\<close>, \<open>x / t\<close>, \<open>c - x\<close> and \<open>x * c\<close>.
\<close>

definition number_less :: "number \<Rightarrow> real \<Rightarrow> bool" where
  "number_less x t =
     (case x of Finite a \<Rightarrow> a < t | PosInf \<Rightarrow> False | NegInf \<Rightarrow> True | NaN \<Rightarrow> False)"

definition divided_by :: "number \<Rightarrow> real \<Rightarrow> number" where
  "divided_by x t =
     (case x of Finite a \<Rightarrow> fl (a / t) | PosInf \<Rightarrow> PosInf | NegInf \<Rightarrow> NegInf | NaN \<Rightarrow> NaN)"

definition subtracted_from :: "number \<Rightarrow> real \<Rightarrow> number" where
  "subtracted_from x c =
     (case x of Finite a \<Rightarrow> fl (c - a) | PosInf \<Rightarrow> NegInf | NegInf \<Rightarrow> PosInf | NaN \<Rightarrow> NaN)"

definition multiplied_by :: "number \<Rightarrow> real \<Rightarrow> number" where
  "multiplied_by x c =
     (case x of Finite a \<Rightarrow> fl (a * c) | PosInf \<Rightarrow> PosInf | NegInf \<Rightarrow> NegInf | NaN \<Rightarrow> NaN)"

subsection \<open>The library and the browser\<close>

text \<open>The result of \<open>detectSingleFace(img).withFaceLandmarks().withFaceDescriptor()\<close>.\<close>

record 'd detection =
  descriptor :: 'd

text \<open>
  The three functions of face-api.js that \<open>verifyFaces\<close> calls. \<open>fetchImage\<close> returns a
  promise, which is fulfilled or rejected; \<open>detectSingleFace\<close> with its two steps builds a
  task, which when run ends with a detection (\<open>None\<close> for JavaScript's \<open>undefined\<close>) or
  fails; \<open>euclideanDistance\<close> returns a number or throws. \<open>Inl\<close> is the value rejected
  with, failed with or thrown.
\<close>

record ('i, 'd) faceapi =
  fetchImage :: "string \<Rightarrow> exn + 'i"
  detectSingleFace :: "'i \<Rightarrow> exn + 'd detection option"
  euclideanDistance :: "'d \<Rightarrow> 'd \<Rightarrow> exn + number"

text \<open>
  What an \<open>await\<close> of a task of face-api.js sees. The task is not a promise but an object
  with a method \<open>then\<close> that takes the callback for fulfilment only. \<open>await\<close> hands \<open>then\<close>
  its two callbacks; when the task fails, neither is called, and the function that
  awaits is never resumed: \<open>None\<close>.
\<close>

definition await_task :: "exn + 'a \<Rightarrow> 'a option" where
  "await_task r = (case r of Inl e \<Rightarrow> None | Inr v \<Rightarrow> Some v)"

text \<open>
  How a block of statements with \<open>await\<close>s ends: with a value, with a thrown value, or
  never, waiting at an \<open>await\<close> that is not resumed.
\<close>

datatype 'a ending = Ends 'a | Throws exn | Waits

text \<open>
  How a call of an asynchronous function ends: it returns and leaves a state, it throws,
  or it stays suspended with the state it has written so far.
\<close>

datatype 'a outcome = Returned 'a | Thrown exn | Suspended 'a

text \<open>The browser functions that the handlers call.\<close>

record browser =
  readAsDataURL :: "jsfile \<Rightarrow> string option"
  getContext2d :: "canvas \<Rightarrow> bool"
  drawImage :: "video \<Rightarrow> canvas \<Rightarrow> canvas"
  toDataURL :: "canvas \<Rightarrow> string"
  toFixed :: "number \<Rightarrow> nat \<Rightarrow> string"

text \<open>The calls made to face-api.js, in the order they are made.\<close>

datatype ('i, 'd) call =
    FetchImage string
  | DetectSingleFace 'i
  | EuclideanDistance 'd 'd

subsection \<open>The component\<close>

record home =
  uploadedImage :: "string option"
  cameraImage :: "string option"
  verificationResult :: "string option"
  isLoading :: bool
  videoRef :: "video option"
  canvasRef :: "canvas option"
  streamRef :: "stream option"

text \<open>JavaScript truthiness of a \<open>string | null\<close>: \<open>null\<close> and the empty string are falsy.\<close>

definition truthy :: "string option \<Rightarrow> bool" where
  "truthy v = (case v of None \<Rightarrow> False | Some s \<Rightarrow> s \<noteq> [])"

subsection \<open>verifyFaces\<close>

definition missing_input_message :: string where
  "missing_input_message = ''Please upload an image and capture a camera image first.''"

definition no_match_message :: string where
  "no_match_message = ''No Match - Different persons detected''"

definition no_face_message :: string where
  "no_face_message =
     ''Face not detected in one or both images. Please try again with clearer images.''"

definition error_message :: string where
  "error_message = ''Error occurred during verification. Please try again.''"

text \<open>Line 128: the double that the literal \<open>0.6\<close> denotes, a little below six tenths.\<close>

definition threshold :: real where
  "threshold = 5404319552844595 / 2 ^ 53"

text \<open>Line 132, \<open>(1 - distance / threshold) * 100\<close>, each operation rounded.\<close>

definition confidence :: "number \<Rightarrow> number" where
  "confidence distance = multiplied_by (subtracted_from (divided_by distance threshold) 1) 100"

text \<open>Lines 128 to 134: the message for a distance.\<close>

definition match_message :: "browser \<Rightarrow> number \<Rightarrow> string" where
  "match_message br distance =
     ''Match! Confidence: '' @ toFixed br (confidence distance) 1 @ ''%''"

definition decide :: "browser \<Rightarrow> number \<Rightarrow> string" where
  "decide br distance =
     (let isMatch = number_less distance threshold
      in if isMatch then match_message br distance else no_match_message)"

text \<open>
  Lines 100 to 137, the body of the \<open>try\<close>: the calls made, and how the block ends: with
  the message passed to \<open>setVerificationResult\<close>, with the value a rejected \<open>fetchImage\<close>
  or \<open>euclideanDistance\<close> throws, or never, at the \<open>await\<close> of a detection that fails.
  Nothing is written to the state before the last statement of the block.
\<close>

definition verifyFaces_try ::
  "('i, 'd) faceapi \<Rightarrow> browser \<Rightarrow> string \<Rightarrow> string \<Rightarrow> ('i, 'd) call list \<times> string ending"
where
  "verifyFaces_try api br up cam =
     (case fetchImage api up of
        Inl e \<Rightarrow> ([FetchImage up], Throws e)
      | Inr uploadedImg \<Rightarrow>
     (case fetchImage api cam of
        Inl e \<Rightarrow> ([FetchImage up, FetchImage cam], Throws e)
      | Inr cameraImg \<Rightarrow>
     (case await_task (detectSingleFace api uploadedImg) of
        None \<Rightarrow> ([FetchImage up, FetchImage cam, DetectSingleFace uploadedImg], Waits)
      | Some uploadedDetections \<Rightarrow>
     (case await_task (detectSingleFace api cameraImg) of
        None \<Rightarrow>
          ([FetchImage up, FetchImage cam, DetectSingleFace uploadedImg,
            DetectSingleFace cameraImg], Waits)
      | Some cameraDetections \<Rightarrow>
     (case (uploadedDetections, cameraDetections) of
        (Some u, Some c) \<Rightarrow>
          ([FetchImage up, FetchImage cam, DetectSingleFace uploadedImg,
            DetectSingleFace cameraImg, EuclideanDistance (descriptor u) (descriptor c)],
           (case euclideanDistance api (descriptor u) (descriptor c) of
              Inl e \<Rightarrow> Throws e
            | Inr distance \<Rightarrow> Ends (decide br distance)))
      | _ \<Rightarrow>
          ([FetchImage up, FetchImage cam, DetectSingleFace uploadedImg,
            DetectSingleFace cameraImg], Ends no_face_message))))))"

text \<open>
  Lines 92 to 98, up to the first \<open>await\<close>: the guard on the two inputs, and the busy flag.
  The second component is \<open>None\<close> when the call has returned, and the two images the
  suspended call holds otherwise.
\<close>

definition verifyFaces_begin :: "home \<Rightarrow> home \<times> (string \<times> string) option" where
  "verifyFaces_begin h =
     (if \<not> truthy (uploadedImage h) \<or> \<not> truthy (cameraImage h)
      then (h\<lparr>verificationResult := Some missing_input_message\<rparr>, None)
      else (h\<lparr>isLoading := True\<rparr>, Some (the (uploadedImage h), the (cameraImage h))))"

text \<open>
  Lines 99 to 143, on the state of the moment the awaited calls have settled: \<open>try\<close>,
  \<open>catch\<close> and \<open>finally\<close>. When the \<open>try\<close> block waits for ever, neither \<open>catch\<close> nor
  \<open>finally\<close> runs and the call stays suspended on the state as it is.
\<close>

definition verifyFaces_resume ::
  "('i, 'd) faceapi \<Rightarrow> browser \<Rightarrow> string \<Rightarrow> string \<Rightarrow> home \<Rightarrow> ('i, 'd) call list \<times> home outcome"
where
  "verifyFaces_resume api br up cam h =
     (let (calls, r) = verifyFaces_try api br up cam;
          caught = (case r of
                      Ends message \<Rightarrow> Ends (h\<lparr>verificationResult := Some message\<rparr>)
                    | Throws error \<Rightarrow> Ends (h\<lparr>verificationResult := Some error_message\<rparr>)
                    | Waits \<Rightarrow> Waits)
      in (calls, case caught of
                   Ends h' \<Rightarrow> Returned (h'\<lparr>isLoading := False\<rparr>)
                 | Throws e \<Rightarrow> Thrown e
                 | Waits \<Rightarrow> Suspended h))"

text \<open>A call of \<open>verifyFaces\<close> that nothing interrupts.\<close>

definition verifyFaces ::
  "('i, 'd) faceapi \<Rightarrow> browser \<Rightarrow> home \<Rightarrow> ('i, 'd) call list \<times> home outcome"
where
  "verifyFaces api br h =
     (case verifyFaces_begin h of
        (h1, None) \<Rightarrow> ([], Returned h1)
      | (h1, Some (up, cam)) \<Rightarrow> verifyFaces_resume api br up cam h1)"

subsection \<open>The page: the component, its pending asynchronous work and the camera\<close>

text \<open>
  JavaScript runs one handler at a time, up to its next \<open>await\<close> or to its end. What is
  pending between two such runs is part of the page: the \<open>FileReader\<close> loads that have
  been started, the calls of \<open>startCamera\<close> waiting for \<open>getUserMedia\<close>, the calls of
  \<open>verifyFaces\<close> waiting in the \<open>try\<close> block (each with the two images it was called on),
  the tracks of the camera that have not been stopped, and the alerts shown.
\<close>

record page =
  app :: home
  readers :: "jsfile list"
  cameraRequests :: nat
  verifications :: "(string \<times> string) list"
  liveTracks :: "track set"
  alerts :: "string list"

subsection \<open>handleImageUpload\<close>

text \<open>Line 42, \<open>event.target.files?.[0]\<close>: \<open>None\<close> is \<open>undefined\<close>.\<close>

definition first_file :: "jsfile list option \<Rightarrow> jsfile option" where
  "first_file files =
     (case files of None \<Rightarrow> None | Some [] \<Rightarrow> None | Some (f # _) \<Rightarrow> Some f)"

text \<open>Lines 41 to 53: with a file, a reader is started; its \<open>onload\<close> runs later.\<close>

definition handleImageUpload :: "jsfile list option \<Rightarrow> page \<Rightarrow> page" where
  "handleImageUpload files p =
     (case first_file files of
        None \<Rightarrow> p
      | Some f \<Rightarrow> p\<lparr>readers := readers p @ [f]\<rparr>)"

text \<open>Lines 45 to 50, \<open>reader.onload\<close>; the argument is \<open>e.target?.result\<close>.\<close>

definition reader_onload :: "string option \<Rightarrow> home \<Rightarrow> home" where
  "reader_onload result h =
     (if truthy result
      then h\<lparr>uploadedImage := result, verificationResult := None\<rparr>
      else h)"

subsection \<open>startCamera\<close>

definition camera_alert :: string where
  "camera_alert = ''Unable to access camera. Please ensure camera permissions are granted.''"

text \<open>Lines 56 to 60, up to the \<open>await\<close> of \<open>getUserMedia\<close>.\<close>

definition startCamera_begin :: "page \<Rightarrow> page" where
  "startCamera_begin p =
     (let p1 = (case streamRef (app p) of
                  Some s \<Rightarrow> p\<lparr>liveTracks := liveTracks p - set (getTracks s)\<rparr>
                | None \<Rightarrow> p)
      in p1\<lparr>cameraRequests := Suc (cameraRequests p1)\<rparr>)"

text \<open>
  Lines 60 to 75, run when \<open>getUserMedia\<close> has settled with \<open>r\<close>; \<open>played\<close> is the value
  \<open>videoRef.current.play()\<close> rejects with, if it does.
\<close>

definition startCamera_resume :: "exn + stream \<Rightarrow> exn option \<Rightarrow> page \<Rightarrow> page" where
  "startCamera_resume r played p =
     (case r of
        Inl error \<Rightarrow> p\<lparr>alerts := alerts p @ [camera_alert]\<rparr>
      | Inr stream \<Rightarrow>
          (let p1 = p\<lparr>app := (app p)\<lparr>streamRef := Some stream\<rparr>\<rparr>
           in case videoRef (app p1) of
                None \<Rightarrow> p1
              | Some v \<Rightarrow>
                  (let p2 = p1\<lparr>app := (app p1)\<lparr>videoRef := Some (v\<lparr>srcObject := Some stream\<rparr>)\<rparr>\<rparr>
                   in case played of
                        Some error \<Rightarrow> p2\<lparr>alerts := alerts p2 @ [camera_alert]\<rparr>
                      | None \<Rightarrow> p2)))"

text \<open>
  The browser settles one pending \<open>getUserMedia\<close>: the tracks of a stream it hands over
  are live.
\<close>

definition settle_getUserMedia :: "exn + stream \<Rightarrow> page \<Rightarrow> page" where
  "settle_getUserMedia r p =
     (case r of
        Inl error \<Rightarrow> p\<lparr>cameraRequests := cameraRequests p - 1\<rparr>
      | Inr stream \<Rightarrow>
          p\<lparr>cameraRequests := cameraRequests p - 1,
            liveTracks := liveTracks p \<union> set (getTracks stream)\<rparr>)"

text \<open>A call of \<open>startCamera\<close> that nothing interrupts.\<close>

definition startCamera :: "exn + stream \<Rightarrow> exn option \<Rightarrow> page \<Rightarrow> page" where
  "startCamera r played p =
     startCamera_resume r played (settle_getUserMedia r (startCamera_begin p))"

subsection \<open>captureImage\<close>

text \<open>Lines 78 to 90. The canvas takes the size of the video frame before the context is asked for.\<close>

definition captureImage :: "browser \<Rightarrow> home \<Rightarrow> home" where
  "captureImage br h =
     (case (canvasRef h, videoRef h) of
        (Some c, Some v) \<Rightarrow>
          (let canvas = c\<lparr>width := videoWidth v, height := videoHeight v\<rparr>
           in if getContext2d br canvas
              then (let drawn = drawImage br v canvas
                    in h\<lparr>canvasRef := Some drawn,
                         cameraImage := Some (toDataURL br drawn),
                         verificationResult := None\<rparr>)
              else h\<lparr>canvasRef := Some canvas\<rparr>)
      | _ \<Rightarrow> h)"

subsection \<open>The verify button\<close>

text \<open>Line 223, the \<open>disabled\<close> attribute of the button whose \<open>onClick\<close> is \<open>verifyFaces\<close>.\<close>

definition verify_disabled :: "home \<Rightarrow> bool" where
  "verify_disabled h \<longleftrightarrow>
     isLoading h \<or> \<not> truthy (uploadedImage h) \<or> \<not> truthy (cameraImage h)"

text \<open>A click on the button: a disabled button calls nothing.\<close>

definition click_verify :: "page \<Rightarrow> page" where
  "click_verify p =
     (if verify_disabled (app p) then p
      else (case verifyFaces_begin (app p) of
              (h, None) \<Rightarrow> p\<lparr>app := h\<rparr>
            | (h, Some pair) \<Rightarrow> p\<lparr>app := h, verifications := verifications p @ [pair]\<rparr>))"

subsection \<open>Events\<close>

datatype event =
    Upload "jsfile list option"
  | ReaderDone nat
  | ClickStartCamera
  | UserMedia "exn + stream" "exn option"
  | VideoSize nat nat
  | ClickCapture
  | ClickVerify
  | VerifyDone nat

definition remove_nth :: "nat \<Rightarrow> 'a list \<Rightarrow> 'a list" where
  "remove_nth i xs = take i xs @ drop (Suc i) xs"

text \<open>
  One event on the page; \<open>None\<close> when the event cannot happen (nothing is pending at that
  index). \<open>ReaderDone i\<close>: the \<open>i\<close>-th pending read ends, and \<open>onload\<close> runs if it succeeded.
  \<open>UserMedia r played\<close>: a pending \<open>getUserMedia\<close> settles and its \<open>startCamera\<close> goes on.
  \<open>VideoSize\<close>: the browser learns the frame size of the video. \<open>VerifyDone i\<close>: the
  awaited calls of the \<open>i\<close>-th pending \<open>verifyFaces\<close> have settled and it goes on; this
  cannot happen to a call that waits for ever.
\<close>

definition step :: "('i, 'd) faceapi \<Rightarrow> browser \<Rightarrow> page \<Rightarrow> event \<Rightarrow> page option" where
  "step api br p ev =
     (case ev of
        Upload files \<Rightarrow> Some (handleImageUpload files p)
      | ReaderDone i \<Rightarrow>
          (if i < length (readers p)
           then (let p1 = p\<lparr>readers := remove_nth i (readers p)\<rparr>
                 in case readAsDataURL br (readers p ! i) of
                      None \<Rightarrow> Some p1
                    | Some r \<Rightarrow> Some (p1\<lparr>app := reader_onload (Some r) (app p1)\<rparr>))
           else None)
      | ClickStartCamera \<Rightarrow> Some (startCamera_begin p)
      | UserMedia r played \<Rightarrow>
          (if 0 < cameraRequests p
           then Some (startCamera_resume r played (settle_getUserMedia r p))
           else None)
      | VideoSize w h \<Rightarrow>
          (case videoRef (app p) of
             None \<Rightarrow> None
           | Some v \<Rightarrow>
               Some (p\<lparr>app := (app p)\<lparr>videoRef := Some (v\<lparr>videoWidth := w, videoHeight := h\<rparr>)\<rparr>\<rparr>))
      | ClickCapture \<Rightarrow> Some (p\<lparr>app := captureImage br (app p)\<rparr>)
      | ClickVerify \<Rightarrow> Some (click_verify p)
      | VerifyDone i \<Rightarrow>
          (if i < length (verifications p)
           then (case verifications p ! i of
                   (up, cam) \<Rightarrow>
                     (case snd (verifyFaces_resume api br up cam (app p)) of
                        Returned h \<Rightarrow>
                          Some (p\<lparr>app := h, verifications := remove_nth i (verifications p)\<rparr>)
                      | _ \<Rightarrow> None))
           else None))"

fun exec :: "('i, 'd) faceapi \<Rightarrow> browser \<Rightarrow> page \<Rightarrow> event list \<Rightarrow> page option" where
  "exec api br p [] = Some p"
| "exec api br p (ev # evs) =
     (case step api br p ev of None \<Rightarrow> None | Some p' \<Rightarrow> exec api br p' evs)"

text \<open>
  The page when the component has mounted: the state of lines 8 to 14, the refs bound to
  the \<open>video\<close> and \<open>canvas\<close> elements of lines 178 and 200, nothing pending.
\<close>

definition mounted_home :: home where
  "mounted_home =
     \<lparr>uploadedImage = None, cameraImage = None, verificationResult = None,
      isLoading = False,
      videoRef = Some \<lparr>videoWidth = 0, videoHeight = 0, srcObject = None\<rparr>,
      canvasRef = Some \<lparr>width = 300, height = 300, pixels = []\<rparr>,
      streamRef = None\<rparr>"

definition mounted :: page where
  "mounted =
     \<lparr>app = mounted_home, readers = [], cameraRequests = 0, verifications = [],
      liveTracks = {}, alerts = []\<rparr>"

subsection \<open>Runs of the page\<close>

text \<open>
  The result that \<open>verifyFaces\<close> writes for a pair of images: what its second half sets,
  which does not depend on the state it is run on; \<open>None\<close> when it writes none.
\<close>

definition result_of :: "('i, 'd) faceapi \<Rightarrow> browser \<Rightarrow> string \<Rightarrow> string \<Rightarrow> string option" where
  "result_of api br up cam =
     (case snd (verifyFaces_resume api br up cam mounted_home) of
        Returned h \<Rightarrow> verificationResult h
      | _ \<Rightarrow> None)"

text \<open>The displayed result, if there is one, is the result of the two images now held.\<close>

definition corresponds :: "('i, 'd) faceapi \<Rightarrow> browser \<Rightarrow> home \<Rightarrow> bool" where
  "corresponds api br h =
     (case verificationResult h of
        None \<Rightarrow> True
      | Some r \<Rightarrow>
          (case (uploadedImage h, cameraImage h) of
             (Some up, Some cam) \<Rightarrow> result_of api br up cam = Some r
           | _ \<Rightarrow> False))"

text \<open>
  A run in which no event changes the uploaded image or the camera image while a call of
  \<open>verifyFaces\<close> is pending.
\<close>

fun quiet :: "('i, 'd) faceapi \<Rightarrow> browser \<Rightarrow> page \<Rightarrow> event list \<Rightarrow> bool" where
  "quiet api br p [] = True"
| "quiet api br p (ev # evs) =
     (case step api br p ev of
        None \<Rightarrow> True
      | Some p' \<Rightarrow>
          (verifications p = [] \<or>
           (uploadedImage (app p') = uploadedImage (app p) \<and>
            cameraImage (app p') = cameraImage (app p)))
          \<and> quiet api br p' evs)"

text \<open>The tracks of the stream that \<open>streamRef\<close> holds: those that the component can still stop.\<close>

definition held_tracks :: "page \<Rightarrow> track set" where
  "held_tracks p = (case streamRef (app p) of None \<Rightarrow> {} | Some s \<Rightarrow> set (getTracks s))"

text \<open>Every live track belongs to the one stream held: one session at most, and none lost.\<close>

definition no_leak :: "page \<Rightarrow> bool" where
  "no_leak p \<longleftrightarrow> liveTracks p \<subseteq> held_tracks p"

text \<open>
  A run in which \<open>startCamera\<close> is called only when no earlier call is waiting for
  \<open>getUserMedia\<close>.
\<close>

fun serial :: "('i, 'd) faceapi \<Rightarrow> browser \<Rightarrow> page \<Rightarrow> event list \<Rightarrow> bool" where
  "serial api br p [] = True"
| "serial api br p (ev # evs) =
     ((ev = ClickStartCamera \<longrightarrow> cameraRequests p = 0)
      \<and> (case step api br p ev of None \<Rightarrow> True | Some p' \<Rightarrow> serial api br p' evs))"

subsection \<open>Invariants of the runs\<close>

text \<open>
  The displayed result corresponds to the images held, and so will the result of every
  pending call of \<open>verifyFaces\<close>: each was called on the images held now.
\<close>

definition attributable :: "('i, 'd) faceapi \<Rightarrow> browser \<Rightarrow> page \<Rightarrow> bool" where
  "attributable api br p \<longleftrightarrow>
     corresponds api br (app p)
     \<and> (\<forall>pair \<in> set (verifications p).
           uploadedImage (app p) = Some (fst pair) \<and> cameraImage (app p) = Some (snd pair))"

text \<open>
  Between two calls of \<open>startCamera\<close> every live track is held; while one call waits for
  \<open>getUserMedia\<close> no track is live.
\<close>

definition camera_inv :: "page \<Rightarrow> bool" where
  "camera_inv p \<longleftrightarrow>
     (cameraRequests p = 0 \<and> liveTracks p \<subseteq> held_tracks p)
     \<or> (cameraRequests p = 1 \<and> liveTracks p = {})"

subsection \<open>A browser and an engine to run the page on\<close>

text \<open>
  Decimal digits, and \<open>toFixed\<close> as ECMAScript defines it for a number below \<open>10^21\<close> in
  absolute value: the integer \<open>n\<close> nearest to \<open>x * 10^f\<close>, the larger one on a tie, printed
  with \<open>f\<close> digits after the point. The infinities and \<open>NaN\<close> print as their names.
\<close>

fun decimal :: "nat \<Rightarrow> string" where
  "decimal n =
     (if n < 10 then [''0123456789'' ! n]
      else decimal (n div 10) @ [''0123456789'' ! (n mod 10)])"

declare decimal.simps [simp del]

definition toFixed_decimal :: "real \<Rightarrow> nat \<Rightarrow> string" where
  "toFixed_decimal x f =
     (let n = nat \<lfloor>\<bar>x\<bar> * 10 ^ f + 1 / 2\<rfloor>;
          m = decimal n;
          m = replicate (Suc f - length m) (CHR ''0'') @ m;
          k = length m
      in (if x < 0 then ''-'' else []) @
         (if f = 0 then m else take (k - f) m @ ''.'' @ drop (k - f) m))"

definition toFixed_number :: "number \<Rightarrow> nat \<Rightarrow> string" where
  "toFixed_number x f =
     (case x of
        Finite a \<Rightarrow> toFixed_decimal a f
      | PosInf \<Rightarrow> ''Infinity''
      | NegInf \<Rightarrow> ''-Infinity''
      | NaN \<Rightarrow> ''NaN'')"

text \<open>
  A browser: a file \<open>f\<close> reads as \<open>data:f\<close>; a canvas always has a 2D context; a video
  without a stream draws nothing; a canvas without area encodes as \<open>data:,\<close>.
\<close>

definition demo_browser :: browser where
  "demo_browser =
     \<lparr>readAsDataURL = (\<lambda>f. Some (''data:'' @ f)),
      getContext2d = (\<lambda>c. True),
      drawImage = (\<lambda>v c. if srcObject v = None then c else c\<lparr>pixels := [1]\<rparr>),
      toDataURL = (\<lambda>c. if width c = 0 \<or> height c = 0 then ''data:,''
                        else ''data:image/jpeg;base64,AAAA''),
      toFixed = toFixed_number\<rparr>"

text \<open>
  An engine with its models loaded: an image is its URL; \<open>data:gone\<close> cannot be fetched;
  \<open>data:,\<close> shows no face; the descriptor of any other image is the number of letters
  \<open>x\<close> in its URL; the distance of two descriptors is the double nearest to three tenths
  of their difference.
\<close>

definition demo_api :: "(string, real) faceapi" where
  "demo_api =
     \<lparr>fetchImage = (\<lambda>url. if url = ''data:gone'' then Inl ''Failed to fetch'' else Inr url),
      detectSingleFace =
        (\<lambda>img. Inr (if img = ''data:,'' then None
                     else Some \<lparr>descriptor = real (count_list img (CHR ''x''))\<rparr>)),
      euclideanDistance = (\<lambda>a b. Inr (fl (\<bar>a - b\<bar> * 3 / 10)))\<rparr>"

text \<open>
  The same engine before its models are loaded: every detection task fails when it is
  run.
\<close>

definition unloaded_api :: "(string, real) faceapi" where
  "unloaded_api =
     demo_api\<lparr>detectSingleFace := (\<lambda>img. Inl ''SsdMobilenetv1 - load model before inference'')\<rparr>"

text \<open>A component with both images present.\<close>

definition ready_home :: "string \<Rightarrow> string \<Rightarrow> home" where
  "ready_home up cam = mounted_home\<lparr>uploadedImage := Some up, cameraImage := Some cam\<rparr>"

text \<open>A component with a stream, a frame size and a result.\<close>

definition streaming_home :: home where
  "streaming_home =
     mounted_home\<lparr>videoRef := Some \<lparr>videoWidth = 4, videoHeight = 3,
                                    srcObject = Some (MediaStream [1])\<rparr>,
                  streamRef := Some (MediaStream [1]),
                  verificationResult := Some ''No Match - Different persons detected''\<rparr>"

text \<open>Pages that the runs below end in.\<close>

definition fresh_page :: page where
  "fresh_page =
     \<lparr>app = \<lparr>uploadedImage = Some ''data:me'',
              cameraImage = Some ''data:image/jpeg;base64,AAAA'',
              verificationResult = Some ''Match! Confidence: 100.0%'',
              isLoading = False,
              videoRef = Some \<lparr>videoWidth = 4, videoHeight = 3,
                               srcObject = Some (MediaStream [1])\<rparr>,
              canvasRef = Some \<lparr>width = 4, height = 3, pixels = [1]\<rparr>,
              streamRef = Some (MediaStream [1])\<rparr>,
      readers = [], cameraRequests = 0, verifications = [], liveTracks = {1}, alerts = []\<rparr>"

definition stale_page :: page where
  "stale_page =
     \<lparr>app = \<lparr>uploadedImage = Some ''data:xx'',
              cameraImage = Some ''data:image/jpeg;base64,AAAA'',
              verificationResult = Some ''Match! Confidence: 100.0%'',
              isLoading = False,
              videoRef = Some \<lparr>videoWidth = 4, videoHeight = 3,
                               srcObject = Some (MediaStream [1])\<rparr>,
              canvasRef = Some \<lparr>width = 4, height = 3, pixels = [1]\<rparr>,
              streamRef = Some (MediaStream [1])\<rparr>,
      readers = [], cameraRequests = 0, verifications = [], liveTracks = {1}, alerts = []\<rparr>"

definition restarted_page :: page where
  "restarted_page =
     \<lparr>app = mounted_home
         \<lparr>videoRef := Some \<lparr>videoWidth = 0, videoHeight = 0,
                             srcObject = Some (MediaStream [2])\<rparr>,
          streamRef := Some (MediaStream [2])\<rparr>,
      readers = [], cameraRequests = 0, verifications = [], liveTracks = {2}, alerts = []\<rparr>"

definition leaking_page :: page where
  "leaking_page = restarted_page\<lparr>liveTracks := {2, 1}\<rparr>"

section \<open>Properties\<close>

subsection \<open>Lemmas on numbers\<close>

lemma fl_eval:
  assumes "x \<noteq> 0" "exponent \<bar>x\<bar> = e" "max e (- 1022) - 52 = k" "pow2 k = u"
    "round_half_even (\<bar>x\<bar> / u) = n" "of_int n * u < pow2 1024"
  shows "fl x = Finite (if 0 < x then of_int n * u else - (of_int n * u))"
  using assms(1,6) unfolding fl_def Let_def assms(2-5) by (simp del: of_int_numeral)

lemmas fl_eval_defs = exponent_def compute_bitlen pow2_def round_half_even_def Let_def

text \<open>\<open>exponent\<close> is the binary exponent of a positive real.\<close>

lemma exponent_bounds:
  assumes "0 < a"
  shows "pow2 (exponent a) \<le> a \<and> a < pow2 (exponent a + 1)"
proof (cases "1 \<le> a")
  case True
  define n where "n = \<lfloor>a\<rfloor>"
  from True have n: "0 < n" by (simp add: n_def)
  from bitlen_bounds [OF n] have lo: "2 ^ nat (bitlen n - 1) \<le> n" and hi: "n < 2 ^ nat (bitlen n)"
    by simp_all
  from n have b: "1 \<le> bitlen n" by (simp add: bitlen_alt_def)
  have e: "exponent a = bitlen n - 1" using True by (simp add: exponent_def n_def)
  have "(2::real) ^ nat (bitlen n - 1) \<le> of_int n"
    using lo by (metis of_int_le_iff of_int_numeral of_int_power)
  also have "\<dots> \<le> a" by (simp add: n_def)
  finally have 1: "pow2 (exponent a) \<le> a" using b by (simp add: e pow2_def)
  from hi have "n + 1 \<le> 2 ^ nat (bitlen n)" by simp
  then have "of_int (n + 1) \<le> (2::real) ^ nat (bitlen n)"
    by (metis of_int_le_iff of_int_numeral of_int_power)
  moreover have "a < of_int (n + 1)" unfolding n_def by linarith
  ultimately have "a < 2 ^ nat (bitlen n)" by simp
  then have 2: "a < pow2 (exponent a + 1)" using b by (simp add: e pow2_def)
  from 1 2 show ?thesis ..
next
  case False
  with assms have a1: "1 < 1 / a" by simp
  define m where "m = \<lceil>1 / a\<rceil> - 1"
  from a1 have m: "0 < m" unfolding m_def by linarith
  from bitlen_bounds [OF m] have lo: "2 ^ nat (bitlen m - 1) \<le> m" and hi: "m < 2 ^ nat (bitlen m)"
    by simp_all
  from m have b: "1 \<le> bitlen m" by (simp add: bitlen_alt_def)
  have e: "exponent a = - bitlen m" using False by (simp add: exponent_def m_def)
  from hi have "m + 1 \<le> 2 ^ nat (bitlen m)" by simp
  then have "of_int (m + 1) \<le> (2::real) ^ nat (bitlen m)"
    by (metis of_int_le_iff of_int_numeral of_int_power)
  moreover have "1 / a \<le> of_int (m + 1)" unfolding m_def by simp
  ultimately have "1 / a \<le> 2 ^ nat (bitlen m)" by simp
  with assms have "1 / 2 ^ nat (bitlen m) \<le> a"
    by (simp add: field_simps)
  then have 1: "pow2 (exponent a) \<le> a" using b by (simp add: e pow2_def)
  have "(2::real) ^ nat (bitlen m - 1) \<le> of_int m"
    using lo by (metis of_int_le_iff of_int_numeral of_int_power)
  also have "of_int m < 1 / a" unfolding m_def by linarith
  finally have "(2::real) ^ nat (bitlen m - 1) < 1 / a" .
  with assms have lt: "a < 1 / 2 ^ nat (bitlen m - 1)"
    by (simp add: field_simps)
  have 2: "a < pow2 (exponent a + 1)"
  proof (cases "bitlen m = 1")
    case True
    with lt show ?thesis by (simp add: e pow2_def)
  next
    case F: False
    with b have "1 < bitlen m" by simp
    then have "nat (- (1 - bitlen m)) = nat (bitlen m - 1)" "\<not> 0 \<le> 1 - bitlen m" by simp_all
    with lt show ?thesis by (simp add: e pow2_def)
  qed
  from 1 2 show ?thesis ..
qed

lemma pow2_pos: "0 < pow2 e"
  by (simp add: pow2_def)

lemma round_half_even_error: "\<bar>of_int (round_half_even q) - q\<bar> \<le> 1 / 2"
  unfolding round_half_even_def Let_def by (auto; linarith)

text \<open>
  A finite result of \<open>fl\<close> is a multiple of the unit of its binade and lies within half
  a unit of the real.
\<close>

lemma fl_nearest:
  assumes "fl x = Finite r" "x \<noteq> 0"
  defines "u \<equiv> pow2 (max (exponent \<bar>x\<bar>) (- 1022) - 52)"
  shows "\<bar>r - x\<bar> \<le> u / 2 \<and> (\<exists>n. r = of_int n * u)"
proof -
  define n where "n = round_half_even (\<bar>x\<bar> / u)"
  have u: "0 < u" unfolding u_def by (rule pow2_pos)
  from assms(1,2) have r: "r = (if 0 < x then of_int n * u else - (of_int n * u))"
    unfolding fl_def Let_def n_def u_def by (simp split: if_splits)
  have "\<bar>of_int n - \<bar>x\<bar> / u\<bar> \<le> 1 / 2"
    unfolding n_def by (rule round_half_even_error)
  then have "\<bar>of_int n - \<bar>x\<bar> / u\<bar> * u \<le> 1 / 2 * u"
    using u by (intro mult_right_mono) simp_all
  moreover have "\<bar>of_int n - \<bar>x\<bar> / u\<bar> * u = \<bar>of_int n * u - \<bar>x\<bar>\<bar>"
  proof -
    have "\<bar>of_int n - \<bar>x\<bar> / u\<bar> * u = \<bar>(of_int n - \<bar>x\<bar> / u) * u\<bar>"
      using u by (simp add: abs_mult)
    also have "(of_int n - \<bar>x\<bar> / u) * u = of_int n * u - \<bar>x\<bar>"
      using u by (simp add: left_diff_distrib)
    finally show ?thesis .
  qed
  ultimately have e: "\<bar>of_int n * u - \<bar>x\<bar>\<bar> \<le> u / 2" by simp
  have 1: "\<bar>r - x\<bar> \<le> u / 2"
  proof (cases "0 < x")
    case True
    with e r show ?thesis by simp
  next
    case False
    with e r assms(2) show ?thesis by (simp add: abs_if split: if_splits)
  qed
  have 2: "\<exists>k. r = of_int k * u"
  proof (cases "0 < x")
    case True
    with r show ?thesis by auto
  next
    case False
    with r have "r = of_int (- n) * u" by simp
    then show ?thesis by blast
  qed
  from 1 2 show ?thesis ..
qed

lemma pow2_powr: "pow2 e = 2 powr (real_of_int e)"
proof (cases "0 \<le> e")
  case True
  then have "real_of_int e = real (nat e)" by simp
  then show ?thesis using True by (simp add: pow2_def powr_realpow del: of_nat_nat)
next
  case False
  then have "real_of_int e = - real (nat (- e))" by simp
  then show ?thesis using False
    by (simp add: pow2_def powr_minus_divide powr_realpow del: of_nat_nat)
qed

lemma pow2_le_iff: "pow2 i \<le> pow2 j \<longleftrightarrow> i \<le> j"
  by (simp add: pow2_powr)

lemma pow2_less_iff: "pow2 i < pow2 j \<longleftrightarrow> i < j"
  by (simp add: pow2_powr)

lemma exponent_less:
  assumes "0 < a" "a < pow2 k"
  shows "exponent a < k"
proof -
  from exponent_bounds [OF assms(1)] assms(2) have "pow2 (exponent a) < pow2 k" by simp
  then show ?thesis by (simp add: pow2_less_iff)
qed

text \<open>Below \<open>2^k\<close> in absolute value, \<open>fl\<close> is finite and within \<open>2^(k-54)\<close> of the real.\<close>

lemma fl_close:
  assumes "\<bar>x\<bar> < pow2 k" "- 1021 \<le> k" "k \<le> 1023"
  shows "\<exists>r. fl x = Finite r \<and> \<bar>r - x\<bar> \<le> pow2 (k - 54)"
proof (cases "x = 0")
  case True
  then show ?thesis using pow2_pos [of "k - 54"] by (simp add: fl_def)
next
  case False
  define e where "e = max (exponent \<bar>x\<bar>) (- 1022)"
  define u where "u = pow2 (e - 52)"
  define n where "n = round_half_even (\<bar>x\<bar> / u)"
  from False assms(1) have "exponent \<bar>x\<bar> < k" by (intro exponent_less) simp_all
  with assms(2) have e: "e \<le> k - 1" by (simp add: e_def)
  then have "pow2 (e - 52) \<le> pow2 (k - 53)" by (simp add: pow2_le_iff)
  then have ule: "u \<le> pow2 (k - 53)" by (simp add: u_def)
  have u: "0 < u" unfolding u_def by (rule pow2_pos)
  have half: "pow2 (k - 53) / 2 = pow2 (k - 54)"
    by (simp add: pow2_powr powr_diff)
  have "\<bar>of_int n - \<bar>x\<bar> / u\<bar> \<le> 1 / 2"
    unfolding n_def by (rule round_half_even_error)
  then have "\<bar>of_int n - \<bar>x\<bar> / u\<bar> * u \<le> 1 / 2 * u"
    using u by (intro mult_right_mono) simp_all
  moreover have "\<bar>of_int n - \<bar>x\<bar> / u\<bar> * u = \<bar>of_int n * u - \<bar>x\<bar>\<bar>"
  proof -
    have "\<bar>of_int n - \<bar>x\<bar> / u\<bar> * u = \<bar>(of_int n - \<bar>x\<bar> / u) * u\<bar>"
      using u by (simp add: abs_mult)
    also have "(of_int n - \<bar>x\<bar> / u) * u = of_int n * u - \<bar>x\<bar>"
      using u by (simp add: left_diff_distrib)
    finally show ?thesis .
  qed
  ultimately have err: "\<bar>of_int n * u - \<bar>x\<bar>\<bar> \<le> u / 2" by simp
  with ule half have err': "\<bar>of_int n * u - \<bar>x\<bar>\<bar> \<le> pow2 (k - 54)" by simp
  have "pow2 (k - 54) < pow2 k" by (simp add: pow2_less_iff)
  with err' assms(1) have "of_int n * u < pow2 k + pow2 k" by linarith
  also have "pow2 k + pow2 k = pow2 (k + 1)"
    by (simp add: pow2_powr powr_add)
  also have "\<dots> \<le> pow2 1024" using assms(3) by (simp add: pow2_le_iff)
  finally have fin: "\<not> pow2 1024 \<le> of_int n * u" by simp
  have fl: "fl x = Finite (if 0 < x then of_int n * u else - (of_int n * u))"
    using False fin unfolding fl_def Let_def n_def u_def e_def by simp
  show ?thesis
  proof (cases "0 < x")
    case True
    with fl err' show ?thesis by simp
  next
    case neg: False
    with False have "x < 0" by simp
    with fl err' show ?thesis by (simp add: abs_if split: if_splits)
  qed
qed

text \<open>
  For a finite distance from 0 up to the threshold, the confidence is finite and within
  \<open>2^-45\<close> of \<open>(1 - d / threshold) * 100\<close>.
\<close>

lemma confidence_close:
  assumes "0 \<le> d" "d < threshold"
  shows "\<exists>c. confidence (Finite d) = Finite c
           \<and> \<bar>c - (1 - d / threshold) * 100\<bar> \<le> 1 / 2 ^ 45"
proof -
  have t: "0 < threshold" by (simp add: threshold_def)
  define q where "q = d / threshold"
  from assms t have q: "0 \<le> q" "q < 1" by (simp_all add: q_def)
  then have "\<bar>q\<bar> < pow2 0" by (simp add: pow2_def)
  from fl_close [OF this] obtain q' where q': "fl q = Finite q'" "\<bar>q' - q\<bar> \<le> pow2 (- 54)"
    by auto
  have p54: "pow2 (- 54) = 1 / 2 ^ 54" and p53: "pow2 (- 53) = 1 / 2 ^ 53"
    and p47: "pow2 (- 47) = 1 / 2 ^ 47"
    by (simp_all add: pow2_def)
  from q q' have "\<bar>1 - q'\<bar> < pow2 1" by (simp add: pow2_def p54 abs_if split: if_splits)
  from fl_close [OF this] obtain s' where s': "fl (1 - q') = Finite s'"
      "\<bar>s' - (1 - q')\<bar> \<le> pow2 (- 53)"
    by auto
  from q q' s' have "\<bar>s'\<bar> \<le> 1 + 1 / 2 ^ 54 + 1 / 2 ^ 53" unfolding p54 p53 by linarith
  then have "\<bar>s' * 100\<bar> < pow2 7" by (simp add: pow2_def abs_mult)
  from fl_close [OF this] obtain c where c: "fl (s' * 100) = Finite c"
      "\<bar>c - s' * 100\<bar> \<le> pow2 (- 47)"
    by auto
  have conf: "confidence (Finite d) = Finite c"
    using q' s' c
    by (simp add: confidence_def divided_by_def subtracted_from_def multiplied_by_def q_def)
  from q' s' have "\<bar>s' - (1 - q)\<bar> \<le> 1 / 2 ^ 53 + 1 / 2 ^ 54" unfolding p54 p53 by linarith
  then have "\<bar>s' - (1 - q)\<bar> * 100 \<le> (1 / 2 ^ 53 + 1 / 2 ^ 54) * 100"
    by (intro mult_right_mono) simp_all
  moreover have "\<bar>s' * 100 - (1 - q) * 100\<bar> = \<bar>s' - (1 - q)\<bar> * 100"
  proof -
    have "\<bar>(s' - (1 - q)) * 100\<bar> = \<bar>s' - (1 - q)\<bar> * \<bar>100\<bar>" by (rule abs_mult)
    moreover have "(s' - (1 - q)) * 100 = s' * 100 - (1 - q) * 100"
      by (rule left_diff_distrib)
    ultimately show ?thesis by simp
  qed
  ultimately have "\<bar>s' * 100 - (1 - q) * 100\<bar> \<le> (1 / 2 ^ 53 + 1 / 2 ^ 54) * 100"
    by simp
  with c have "\<bar>c - (1 - q) * 100\<bar> \<le> 1 / 2 ^ 47 + (1 / 2 ^ 53 + 1 / 2 ^ 54) * 100"
    unfolding p47 by linarith
  also have "\<dots> \<le> 1 / 2 ^ 45" by simp
  finally show ?thesis using conf by (auto simp: q_def)
qed

lemma fl_zero: "fl 0 = Finite 0"
  by (simp add: fl_def)

lemma fl_half: "fl (1 / 2) = Finite (1 / 2)"
  using fl_eval [of "1 / 2" "-1" "-53" "1 / 2 ^ 53" "2 ^ 52"] by (simp add: fl_eval_defs)

lemma fl_one: "fl 1 = Finite 1"
  using fl_eval [of 1 0 "-52" "1 / 2 ^ 52" "2 ^ 52"] by (simp add: fl_eval_defs)

lemma fl_fifty: "fl 50 = Finite 50"
  using fl_eval [of 50 5 "-47" "1 / 2 ^ 47" "50 * 2 ^ 47"] by (simp add: fl_eval_defs)

lemma fl_hundred: "fl 100 = Finite 100"
  using fl_eval [of 100 6 "-46" "1 / 2 ^ 46" "100 * 2 ^ 46"] by (simp add: fl_eval_defs)

lemma fl_three_tenths: "fl (3 / 10) = Finite (5404319552844595 / 2 ^ 54)"
  using fl_eval [of "3 / 10" "-2" "-54" "1 / 2 ^ 54" 5404319552844595]
  by (simp add: fl_eval_defs)

text \<open>The literal \<open>0.6\<close> of line 128 denotes the double nearest to six tenths.\<close>

lemma fl_six_tenths: "fl (3 / 5) = Finite threshold"
  using fl_eval [of "3 / 5" "-1" "-53" "1 / 2 ^ 53" 5404319552844595]
  by (simp add: fl_eval_defs threshold_def)

lemma confidence_zero: "confidence (fl 0) = Finite 100"
  by (simp add: confidence_def multiplied_by_def subtracted_from_def divided_by_def
      fl_zero fl_one fl_hundred)

lemma confidence_three_tenths: "confidence (fl (3 / 10)) = Finite 50"
  by (simp add: confidence_def multiplied_by_def subtracted_from_def divided_by_def
      threshold_def fl_three_tenths fl_half fl_fifty)

lemma less_zero: "number_less (fl 0) threshold"
  by (simp add: number_less_def fl_zero threshold_def)

lemma less_three_tenths: "number_less (fl (3 / 10)) threshold"
  by (simp add: number_less_def fl_three_tenths threshold_def)

lemma not_less_six_tenths: "\<not> number_less (fl (3 / 5)) threshold"
  by (simp add: number_less_def fl_six_tenths)

lemma toFixed_fifty: "toFixed demo_browser (Finite 50) 1 = ''50.0''"
  by (simp add: demo_browser_def toFixed_number_def toFixed_decimal_def decimal.simps)

lemma toFixed_hundred: "toFixed demo_browser (Finite 100) 1 = ''100.0''"
  by (simp add: demo_browser_def toFixed_number_def toFixed_decimal_def decimal.simps)

lemma demo_decide_zero: "decide demo_browser (fl 0) = ''Match! Confidence: 100.0%''"
  unfolding decide_def match_message_def Let_def confidence_zero toFixed_hundred
  using less_zero by simp

lemma demo_decide_three_tenths:
  "decide demo_browser (fl (3 / 10)) = ''Match! Confidence: 50.0%''"
  unfolding decide_def match_message_def Let_def confidence_three_tenths toFixed_fifty
  using less_three_tenths by simp

lemma demo_decide_six_tenths:
  "decide demo_browser (fl (3 / 5)) = ''No Match - Different persons detected''"
  by (simp add: decide_def not_less_six_tenths no_match_message_def)


subsection \<open>Lemmas on verifyFaces\<close>

lemma verifyFaces_present:
  assumes "uploadedImage h = Some up" "up \<noteq> []" "cameraImage h = Some cam" "cam \<noteq> []"
  shows "verifyFaces api br h = verifyFaces_resume api br up cam (h\<lparr>isLoading := True\<rparr>)"
  using assms by (simp add: verifyFaces_def verifyFaces_begin_def truthy_def)

lemma verifyFaces_try_decided:
  assumes "fetchImage api up = Inr iu" "fetchImage api cam = Inr ic"
    and "detectSingleFace api iu = Inr (Some du)" "detectSingleFace api ic = Inr (Some dc)"
    and "euclideanDistance api (descriptor du) (descriptor dc) = Inr d"
  shows "snd (verifyFaces_try api br up cam) = Ends (decide br d)"
  using assms by (simp add: verifyFaces_try_def await_task_def)

lemma resume_sets_message:
  assumes "snd (verifyFaces_try api br up cam) = Ends m"
  shows "snd (verifyFaces_resume api br up cam h) =
           Returned (h\<lparr>verificationResult := Some m, isLoading := False\<rparr>)"
  using assms by (simp add: verifyFaces_resume_def split_def)

lemma resume_catches:
  assumes "snd (verifyFaces_try api br up cam) = Throws e"
  shows "snd (verifyFaces_resume api br up cam h) =
           Returned (h\<lparr>verificationResult := Some error_message, isLoading := False\<rparr>)"
  using assms by (simp add: verifyFaces_resume_def split_def)

lemma resume_waits:
  assumes "snd (verifyFaces_try api br up cam) = Waits"
  shows "snd (verifyFaces_resume api br up cam h) = Suspended h"
  using assms by (simp add: verifyFaces_resume_def split_def)

lemma resume_cases:
  "snd (verifyFaces_resume api br up cam h) = Suspended h
   \<or> (\<exists>m. snd (verifyFaces_resume api br up cam h) =
             Returned (h\<lparr>verificationResult := Some m, isLoading := False\<rparr>))"
  by (cases "snd (verifyFaces_try api br up cam)")
     (auto simp: verifyFaces_resume_def split_def)

lemma resume_calls:
  "fst (verifyFaces_resume api br up cam h) = fst (verifyFaces_try api br up cam)"
  by (simp add: verifyFaces_resume_def split_def Let_def)

lemma decide_cases: "decide br d = match_message br d \<or> decide br d = no_match_message"
  by (simp add: decide_def)

lemma decide_not_no_face: "decide br d \<noteq> no_face_message"
  by (simp add: decide_def match_message_def no_match_message_def no_face_message_def)

lemma try_ends_cases:
  assumes "snd (verifyFaces_try api br up cam) = Ends m"
  shows "m = no_face_message \<or> (\<exists>d. m = decide br d)"
  using assms
  by (auto simp: verifyFaces_try_def split: sum.splits option.splits prod.splits)

lemma try_first_call: "\<exists>calls. fst (verifyFaces_try api br up cam) = FetchImage up # calls"
  by (auto simp: verifyFaces_try_def split: sum.splits option.splits prod.splits)

text \<open>A rejected fetch and a throwing distance reach the \<open>catch\<close>.\<close>

lemma try_throws:
  assumes "fetchImage api up = Inl e
     \<or> (fetchImage api up = Inr iu \<and> fetchImage api cam = Inl e)
     \<or> (fetchImage api up = Inr iu \<and> fetchImage api cam = Inr ic
          \<and> detectSingleFace api iu = Inr (Some fu) \<and> detectSingleFace api ic = Inr (Some fc)
          \<and> euclideanDistance api (descriptor fu) (descriptor fc) = Inl e)"
  shows "snd (verifyFaces_try api br up cam) = Throws e"
  using assms by (auto simp: verifyFaces_try_def await_task_def)

text \<open>A detection that fails does not: the block waits at its \<open>await\<close>.\<close>

lemma try_waits:
  assumes "fetchImage api up = Inr iu" "fetchImage api cam = Inr ic"
    and "detectSingleFace api iu = Inl e
         \<or> (detectSingleFace api iu = Inr du \<and> detectSingleFace api ic = Inl e)"
  shows "snd (verifyFaces_try api br up cam) = Waits"
  using assms by (auto simp: verifyFaces_try_def await_task_def)

lemma verifyFaces_failure:
  assumes "uploadedImage h = Some up" "up \<noteq> []" "cameraImage h = Some cam" "cam \<noteq> []"
    and "snd (verifyFaces_try api br up cam) = Throws e"
  shows "snd (verifyFaces api br h) =
           Returned (h\<lparr>verificationResult := Some error_message, isLoading := False\<rparr>)"
proof -
  have "snd (verifyFaces_resume api br up cam (h\<lparr>isLoading := True\<rparr>)) =
      Returned (h\<lparr>isLoading := True, verificationResult := Some error_message,
                 isLoading := False\<rparr>)"
    using assms(5) by (rule resume_catches)
  then show ?thesis
    unfolding verifyFaces_present [OF assms(1-4)] by simp
qed

lemma verifyFaces_suspended:
  assumes "uploadedImage h = Some up" "up \<noteq> []" "cameraImage h = Some cam" "cam \<noteq> []"
    and "snd (verifyFaces_try api br up cam) = Waits"
  shows "snd (verifyFaces api br h) = Suspended (h\<lparr>isLoading := True\<rparr>)"
  unfolding verifyFaces_present [OF assms(1-4)] using assms(5) by (rule resume_waits)

lemma verifyFaces_never_throws: "snd (verifyFaces api br h) \<noteq> Thrown e"
proof (cases "truthy (uploadedImage h) \<and> truthy (cameraImage h)")
  case False
  then show ?thesis by (auto simp: verifyFaces_def verifyFaces_begin_def)
next
  case True
  then obtain up cam where p: "uploadedImage h = Some up" "up \<noteq> []"
      "cameraImage h = Some cam" "cam \<noteq> []"
    by (auto simp: truthy_def split: option.splits)
  show ?thesis
    using resume_cases [of api br up cam "h\<lparr>isLoading := True\<rparr>"]
    unfolding verifyFaces_present [OF p] by auto
qed

lemma verifyFaces_returned:
  assumes "snd (verifyFaces api br h) = Returned h'"
  shows "(\<not> isLoading h \<longrightarrow> \<not> isLoading h')
     \<and> (truthy (uploadedImage h) \<and> truthy (cameraImage h) \<longrightarrow> \<not> isLoading h')"
proof (cases "truthy (uploadedImage h) \<and> truthy (cameraImage h)")
  case False
  with assms show ?thesis by (auto simp: verifyFaces_def verifyFaces_begin_def)
next
  case True
  then obtain up cam where p: "uploadedImage h = Some up" "up \<noteq> []"
      "cameraImage h = Some cam" "cam \<noteq> []"
    by (auto simp: truthy_def split: option.splits)
  show ?thesis
    using resume_cases [of api br up cam "h\<lparr>isLoading := True\<rparr>"] assms
    unfolding verifyFaces_present [OF p] by auto
qed

subsection \<open>The decision\<close>

text \<open>
  Claim C1. When both images are present, both are fetched, both detections yield a
  descriptor and the distance of the two descriptors is the number \<open>d\<close>, the call returns
  with the result set from \<open>d\<close> alone: when \<open>d\<close> is below the threshold, the double 0.6,
  the match message with \<open>(1 - d / 0.6) * 100\<close>, computed in doubles and printed by
  \<open>toFixed(1)\<close>; otherwise the no-match message. For a finite \<open>d\<close> from 0 up to the
  threshold the number printed is finite and within \<open>2^-45\<close> of the real
  \<open>(1 - d / threshold) * 100\<close>.
\<close>

theorem verifyFaces_decision:
  assumes "uploadedImage h = Some up" "up \<noteq> []" "cameraImage h = Some cam" "cam \<noteq> []"
    and "fetchImage api up = Inr iu" "fetchImage api cam = Inr ic"
    and "detectSingleFace api iu = Inr (Some du)" "detectSingleFace api ic = Inr (Some dc)"
    and "euclideanDistance api (descriptor du) (descriptor dc) = Inr d"
  shows "snd (verifyFaces api br h) =
           Returned (h\<lparr>verificationResult :=
                    Some (if number_less d threshold
                          then ''Match! Confidence: '' @ toFixed br (confidence d) 1 @ ''%''
                          else ''No Match - Different persons detected''),
                  isLoading := False\<rparr>)
         \<and> (\<forall>x. d = Finite x \<and> 0 \<le> x \<and> x < threshold \<longrightarrow>
               (\<exists>c. confidence d = Finite c
                  \<and> \<bar>c - (1 - x / threshold) * 100\<bar> \<le> 1 / 2 ^ 45))"
proof -
  have m: "decide br d =
      (if number_less d threshold
       then ''Match! Confidence: '' @ toFixed br (confidence d) 1 @ ''%''
       else ''No Match - Different persons detected'')"
    unfolding decide_def match_message_def no_match_message_def Let_def ..
  have "snd (verifyFaces_try api br up cam) = Ends (decide br d)"
    using assms(5-9) by (rule verifyFaces_try_decided)
  then have "snd (verifyFaces_resume api br up cam (h\<lparr>isLoading := True\<rparr>)) =
      Returned (h\<lparr>isLoading := True, verificationResult := Some (decide br d),
                 isLoading := False\<rparr>)"
    by (rule resume_sets_message)
  also have "h\<lparr>isLoading := True, verificationResult := Some (decide br d), isLoading := False\<rparr>
      = h\<lparr>verificationResult := Some (decide br d), isLoading := False\<rparr>"
    by simp
  finally have "snd (verifyFaces api br h) =
           Returned (h\<lparr>verificationResult :=
                    Some (if number_less d threshold
                          then ''Match! Confidence: '' @ toFixed br (confidence d) 1 @ ''%''
                          else ''No Match - Different persons detected''),
                  isLoading := False\<rparr>)"
    unfolding verifyFaces_present [OF assms(1-4)] m .
  moreover have "\<forall>x. d = Finite x \<and> 0 \<le> x \<and> x < threshold \<longrightarrow>
               (\<exists>c. confidence d = Finite c
                  \<and> \<bar>c - (1 - x / threshold) * 100\<bar> \<le> 1 / 2 ^ 45)"
    using confidence_close by blast
  ultimately show ?thesis ..
qed

text \<open>
  On the engine above: the doubles 0.3, 0 and 0.6 as distances give 50.0%, 100.0% and no
  match. For a finite distance the comparison is that of the values, and the double 0.6
  is \<open>5404319552844595 / 2^53\<close>.
\<close>

theorem verifyFaces_decision_witness:
  "snd (verifyFaces demo_api demo_browser (ready_home ''data:x'' ''data:me'')) =
     Returned ((ready_home ''data:x'' ''data:me'')
           \<lparr>verificationResult := Some ''Match! Confidence: 50.0%'', isLoading := False\<rparr>)
   \<and> snd (verifyFaces demo_api demo_browser (ready_home ''data:me'' ''data:me'')) =
     Returned ((ready_home ''data:me'' ''data:me'')
           \<lparr>verificationResult := Some ''Match! Confidence: 100.0%'', isLoading := False\<rparr>)
   \<and> snd (verifyFaces demo_api demo_browser (ready_home ''data:xx'' ''data:me'')) =
     Returned ((ready_home ''data:xx'' ''data:me'')
           \<lparr>verificationResult := Some ''No Match - Different persons detected'',
            isLoading := False\<rparr>)
   \<and> euclideanDistance demo_api 2 0 = Inr (Finite (5404319552844595 / 2 ^ 53))
   \<and> \<not> number_less (Finite (5404319552844595 / 2 ^ 53)) threshold"
proof -
  have a: "snd (verifyFaces demo_api demo_browser (ready_home ''data:x'' ''data:me'')) =
     Returned ((ready_home ''data:x'' ''data:me'')
           \<lparr>verificationResult := Some ''Match! Confidence: 50.0%'', isLoading := False\<rparr>)"
    using verifyFaces_decision [of "ready_home ''data:x'' ''data:me''" "''data:x''" "''data:me''"
        demo_api "''data:x''" "''data:me''" "\<lparr>descriptor = 1\<rparr>" "\<lparr>descriptor = 0\<rparr>"
        "fl (3 / 10)" demo_browser, THEN conjunct1]
      less_three_tenths confidence_three_tenths toFixed_fifty
    by (simp add: ready_home_def demo_api_def)
  have b: "snd (verifyFaces demo_api demo_browser (ready_home ''data:me'' ''data:me'')) =
     Returned ((ready_home ''data:me'' ''data:me'')
           \<lparr>verificationResult := Some ''Match! Confidence: 100.0%'', isLoading := False\<rparr>)"
    using verifyFaces_decision [of "ready_home ''data:me'' ''data:me''" "''data:me''" "''data:me''"
        demo_api "''data:me''" "''data:me''" "\<lparr>descriptor = 0\<rparr>" "\<lparr>descriptor = 0\<rparr>"
        "fl 0" demo_browser, THEN conjunct1]
      less_zero confidence_zero toFixed_hundred
    by (simp add: ready_home_def demo_api_def)
  have c: "snd (verifyFaces demo_api demo_browser (ready_home ''data:xx'' ''data:me'')) =
     Returned ((ready_home ''data:xx'' ''data:me'')
           \<lparr>verificationResult := Some ''No Match - Different persons detected'',
            isLoading := False\<rparr>)"
    using verifyFaces_decision [of "ready_home ''data:xx'' ''data:me''" "''data:xx''" "''data:me''"
        demo_api "''data:xx''" "''data:me''" "\<lparr>descriptor = 2\<rparr>" "\<lparr>descriptor = 0\<rparr>"
        "fl (3 / 5)" demo_browser, THEN conjunct1]
      not_less_six_tenths
    by (simp add: ready_home_def demo_api_def)
  have d: "euclideanDistance demo_api 2 0 = Inr (Finite (5404319552844595 / 2 ^ 53))"
    using fl_six_tenths by (simp add: demo_api_def threshold_def)
  have e: "\<not> number_less (Finite (5404319552844595 / 2 ^ 53)) threshold"
    by (simp add: number_less_def threshold_def)
  from a b c d e show ?thesis by blast
qed

subsection \<open>Missing input\<close>

text \<open>
  Claim C3. When the uploaded image or the camera image is absent, \<open>verifyFaces\<close> returns
  at once with the missing-input message as the result, and makes no call to the engine:
  the list of calls is empty.
\<close>

theorem verifyFaces_missing_input:
  assumes "uploadedImage h = None \<or> cameraImage h = None"
  shows "verifyFaces api br h =
           ([], Returned (h\<lparr>verificationResult :=
                         Some ''Please upload an image and capture a camera image first.''\<rparr>))"
  using assms
  by (auto simp: verifyFaces_def verifyFaces_begin_def truthy_def missing_input_message_def)

theorem verifyFaces_missing_input_witness:
  "verifyFaces demo_api demo_browser (mounted_home\<lparr>cameraImage := Some ''data:me''\<rparr>) =
     ([], Returned (mounted_home
        \<lparr>cameraImage := Some ''data:me'',
         verificationResult :=
           Some ''Please upload an image and capture a camera image first.''\<rparr>))"
  using verifyFaces_missing_input
    [of "mounted_home\<lparr>cameraImage := Some ''data:me''\<rparr>" demo_api demo_browser]
  by (simp add: mounted_home_def)

subsection \<open>No face\<close>

text \<open>
  Claim C4. When both images are present and fetched, both detections return, and one of
  them found no face, the result is the no-face message. The distance is not computed
  (the calls are the two fetches and the two detections), and the message is neither the
  match message nor the no-match message of any distance.
\<close>

theorem verifyFaces_no_face:
  assumes "uploadedImage h = Some up" "up \<noteq> []" "cameraImage h = Some cam" "cam \<noteq> []"
    and "fetchImage api up = Inr iu" "fetchImage api cam = Inr ic"
    and "detectSingleFace api iu = Inr du" "detectSingleFace api ic = Inr dc"
    and "du = None \<or> dc = None"
  shows "verifyFaces api br h =
           ([FetchImage up, FetchImage cam, DetectSingleFace iu, DetectSingleFace ic],
            Returned (h\<lparr>verificationResult :=
                     Some ''Face not detected in one or both images. Please try again with clearer images.'',
                   isLoading := False\<rparr>))
         \<and> (\<forall>d. ''Face not detected in one or both images. Please try again with clearer images.''
                  \<noteq> decide br d)"
proof -
  have t: "verifyFaces_try api br up cam =
      ([FetchImage up, FetchImage cam, DetectSingleFace iu, DetectSingleFace ic],
       Ends no_face_message)"
    using assms(5-9) by (auto simp: verifyFaces_try_def await_task_def split: option.splits)
  have "verifyFaces_resume api br up cam (h\<lparr>isLoading := True\<rparr>) =
      ([FetchImage up, FetchImage cam, DetectSingleFace iu, DetectSingleFace ic],
       Returned (h\<lparr>verificationResult := Some no_face_message, isLoading := False\<rparr>))"
    by (simp add: verifyFaces_resume_def t)
  then have "verifyFaces api br h =
      ([FetchImage up, FetchImage cam, DetectSingleFace iu, DetectSingleFace ic],
       Returned (h\<lparr>verificationResult := Some no_face_message, isLoading := False\<rparr>))"
    unfolding verifyFaces_present [OF assms(1-4)] .
  moreover have "\<forall>d. no_face_message \<noteq> decide br d"
    using decide_not_no_face [of br] by metis
  ultimately show ?thesis
    unfolding no_face_message_def by blast
qed

theorem verifyFaces_no_face_witness:
  "verifyFaces demo_api demo_browser (ready_home ''data:me'' ''data:,'') =
     ([FetchImage ''data:me'', FetchImage ''data:,'', DetectSingleFace ''data:me'',
       DetectSingleFace ''data:,''],
      Returned ((ready_home ''data:me'' ''data:,'')
            \<lparr>verificationResult :=
               Some ''Face not detected in one or both images. Please try again with clearer images.'',
             isLoading := False\<rparr>))"
  using verifyFaces_no_face [of "ready_home ''data:me'' ''data:,''" "''data:me''" "''data:,''"
      demo_api "''data:me''" "''data:,''" "Some \<lparr>descriptor = 0\<rparr>" None demo_browser]
  by (simp add: ready_home_def demo_api_def)

subsection \<open>Failures\<close>

text \<open>
  Claim C5 does not hold of \<open>verifyFaces\<close> for a detection that fails. The \<open>try\<close>,
  \<open>catch\<close> and \<open>finally\<close> of lines 99 to 143 catch a rejected \<open>fetchImage\<close> and a throwing
  \<open>euclideanDistance\<close> (lemmas \<open>try_throws\<close> and \<open>verifyFaces_failure\<close>), and nothing is
  thrown out of the call (lemma \<open>verifyFaces_never_throws\<close>). A task of face-api.js that
  fails never resumes the \<open>await\<close> of lines 103 and 108: on the engine whose models are
  not loaded the call makes its two fetches and starts the first detection, and then
  stays suspended with the busy flag set and no result written.
\<close>

theorem verifyFaces_detection_failure:
  "verifyFaces unloaded_api demo_browser (ready_home ''data:me'' ''data:you'') =
     ([FetchImage ''data:me'', FetchImage ''data:you'', DetectSingleFace ''data:me''],
      Suspended ((ready_home ''data:me'' ''data:you'')\<lparr>isLoading := True\<rparr>))"
proof -
  have "verifyFaces_try unloaded_api demo_browser ''data:me'' ''data:you'' =
      ([FetchImage ''data:me'', FetchImage ''data:you'', DetectSingleFace ''data:me''], Waits)"
    by (simp add: verifyFaces_try_def await_task_def unloaded_api_def demo_api_def)
  then have "verifyFaces_resume unloaded_api demo_browser ''data:me'' ''data:you''
        ((ready_home ''data:me'' ''data:you'')\<lparr>isLoading := True\<rparr>) =
     ([FetchImage ''data:me'', FetchImage ''data:you'', DetectSingleFace ''data:me''],
      Suspended ((ready_home ''data:me'' ''data:you'')\<lparr>isLoading := True\<rparr>))"
    by (simp add: verifyFaces_resume_def)
  then show ?thesis
    using verifyFaces_present [of "ready_home ''data:me'' ''data:you''" "''data:me''"
        "''data:you''" unloaded_api demo_browser]
    by (simp add: ready_home_def)
qed

subsection \<open>Models that are not loaded\<close>

text \<open>
  Claim C8, as the code has it. The component keeps no record of whether the models are
  loaded, and \<open>verifyFaces\<close> does not ask: whenever both images are present it goes on to
  call the engine, starting with the fetch of the uploaded image. It has no outcome of
  its own for models that are not loaded: a result that a call returns with is the
  missing-input, no-match, no-face or verification-error message, or a match message.
\<close>

theorem verifyFaces_no_readiness_check:
  "(uploadedImage h = Some up \<and> up \<noteq> [] \<and> cameraImage h = Some cam \<and> cam \<noteq> [] \<longrightarrow>
      (\<exists>calls. fst (verifyFaces api br h) = FetchImage up # calls))
   \<and> (snd (verifyFaces api br h) = Returned h' \<longrightarrow>
        verificationResult h' =
          Some ''Please upload an image and capture a camera image first.''
        \<or> verificationResult h' = Some ''No Match - Different persons detected''
        \<or> verificationResult h' =
          Some ''Face not detected in one or both images. Please try again with clearer images.''
        \<or> verificationResult h' =
          Some ''Error occurred during verification. Please try again.''
        \<or> (\<exists>d. verificationResult h' =
                 Some (''Match! Confidence: '' @ toFixed br (confidence d) 1 @ ''%'')))"
proof (intro conjI impI)
  assume "uploadedImage h = Some up \<and> up \<noteq> [] \<and> cameraImage h = Some cam \<and> cam \<noteq> []"
  then have "verifyFaces api br h = verifyFaces_resume api br up cam (h\<lparr>isLoading := True\<rparr>)"
    by (intro verifyFaces_present) simp_all
  then show "\<exists>calls. fst (verifyFaces api br h) = FetchImage up # calls"
    using try_first_call [of api br up cam] by (simp add: resume_calls)
next
  assume r: "snd (verifyFaces api br h) = Returned h'"
  let ?goal = "verificationResult h' =
          Some ''Please upload an image and capture a camera image first.''
        \<or> verificationResult h' = Some ''No Match - Different persons detected''
        \<or> verificationResult h' =
          Some ''Face not detected in one or both images. Please try again with clearer images.''
        \<or> verificationResult h' =
          Some ''Error occurred during verification. Please try again.''
        \<or> (\<exists>d. verificationResult h' =
                 Some (''Match! Confidence: '' @ toFixed br (confidence d) 1 @ ''%''))"
  show ?goal
  proof (cases "truthy (uploadedImage h) \<and> truthy (cameraImage h)")
    case False
    with r have "verificationResult h' = Some missing_input_message"
      by (auto simp: verifyFaces_def verifyFaces_begin_def)
    then show ?thesis by (simp add: missing_input_message_def)
  next
    case True
    then obtain u c where p: "uploadedImage h = Some u" "u \<noteq> []"
        "cameraImage h = Some c" "c \<noteq> []"
      by (auto simp: truthy_def split: option.splits)
    from r have r': "snd (verifyFaces_resume api br u c (h\<lparr>isLoading := True\<rparr>)) = Returned h'"
      unfolding verifyFaces_present [OF p] .
    show ?thesis
    proof (cases "snd (verifyFaces_try api br u c)")
      case (Ends m)
      from resume_sets_message [OF Ends] r' have v: "verificationResult h' = Some m"
        by auto
      from try_ends_cases [OF Ends] decide_cases [of br]
      have "m = no_face_message \<or> m = no_match_message \<or> (\<exists>d. m = match_message br d)"
        by metis
      with v show ?thesis
        by (auto simp: no_face_message_def no_match_message_def match_message_def)
    next
      case (Throws e)
      from resume_catches [OF Throws] r' have "verificationResult h' = Some error_message"
        by auto
      then show ?thesis by (simp add: error_message_def)
    next
      case Waits
      from resume_waits [OF Waits] r' show ?thesis by simp
    qed
  qed
qed

theorem verifyFaces_no_readiness_check_witness:
  "fst (verifyFaces unloaded_api demo_browser (ready_home ''data:me'' ''data:you'')) =
     [FetchImage ''data:me'', FetchImage ''data:you'', DetectSingleFace ''data:me'']
   \<and> snd (verifyFaces unloaded_api demo_browser (ready_home ''data:gone'' ''data:you'')) =
     Returned ((ready_home ''data:gone'' ''data:you'')
       \<lparr>verificationResult := Some ''Error occurred during verification. Please try again.'',
        isLoading := False\<rparr>)
   \<and> (\<exists>calls. fst (verifyFaces unloaded_api demo_browser (ready_home ''data:me'' ''data:you''))
         = FetchImage ''data:me'' # calls)"
proof -
  have a: "fst (verifyFaces unloaded_api demo_browser (ready_home ''data:me'' ''data:you'')) =
     [FetchImage ''data:me'', FetchImage ''data:you'', DetectSingleFace ''data:me'']"
    by (simp add: verifyFaces_def verifyFaces_begin_def verifyFaces_resume_def
        verifyFaces_try_def await_task_def truthy_def ready_home_def unloaded_api_def
        demo_api_def)
  have b: "snd (verifyFaces unloaded_api demo_browser (ready_home ''data:gone'' ''data:you'')) =
     Returned ((ready_home ''data:gone'' ''data:you'')
       \<lparr>verificationResult := Some ''Error occurred during verification. Please try again.'',
        isLoading := False\<rparr>)"
    by (simp add: verifyFaces_def verifyFaces_begin_def verifyFaces_resume_def
        verifyFaces_try_def await_task_def truthy_def ready_home_def unloaded_api_def
        demo_api_def error_message_def)
  have c: "\<exists>calls. fst (verifyFaces unloaded_api demo_browser (ready_home ''data:me'' ''data:you''))
         = FetchImage ''data:me'' # calls"
    using verifyFaces_no_readiness_check [of "ready_home ''data:me'' ''data:you''" "''data:me''"
      "''data:you''" unloaded_api demo_browser]
    by (simp add: ready_home_def)
  from a b c show ?thesis by blast
qed

text \<open>
  The claim as the specification states it asks that a call made before the models are
  loaded fails fast with an outcome of its own. On the engine whose models are not loaded
  the call does not return: it stays suspended with the busy flag set, and the result is
  still empty.
\<close>

theorem model_not_ready_counterexample:
  "snd (verifyFaces unloaded_api demo_browser (ready_home ''data:a'' ''data:b'')) =
     Suspended ((ready_home ''data:a'' ''data:b'')\<lparr>isLoading := True\<rparr>)
   \<and> verificationResult ((ready_home ''data:a'' ''data:b'')\<lparr>isLoading := True\<rparr>) = None"
  by (simp add: verifyFaces_def verifyFaces_begin_def verifyFaces_resume_def verifyFaces_try_def
      await_task_def truthy_def ready_home_def mounted_home_def unloaded_api_def demo_api_def)


subsection \<open>Lemmas on the events\<close>

named_theorems frame

lemma reader_onload_frame [frame]:
  "isLoading (reader_onload r h) = isLoading h"
  "cameraImage (reader_onload r h) = cameraImage h"
  "streamRef (reader_onload r h) = streamRef h"
  "videoRef (reader_onload r h) = videoRef h"
  "canvasRef (reader_onload r h) = canvasRef h"
  by (simp_all add: reader_onload_def)

lemma captureImage_frame [frame]:
  "isLoading (captureImage br h) = isLoading h"
  "uploadedImage (captureImage br h) = uploadedImage h"
  "streamRef (captureImage br h) = streamRef h"
  "videoRef (captureImage br h) = videoRef h"
  by (simp_all add: captureImage_def Let_def split: option.splits)

lemma handleImageUpload_frame [frame]:
  "app (handleImageUpload fs p) = app p"
  "verifications (handleImageUpload fs p) = verifications p"
  "cameraRequests (handleImageUpload fs p) = cameraRequests p"
  "liveTracks (handleImageUpload fs p) = liveTracks p"
  "alerts (handleImageUpload fs p) = alerts p"
  by (simp_all add: handleImageUpload_def split: option.splits)

lemma startCamera_begin_frame [frame]:
  "app (startCamera_begin p) = app p"
  "verifications (startCamera_begin p) = verifications p"
  "readers (startCamera_begin p) = readers p"
  "cameraRequests (startCamera_begin p) = Suc (cameraRequests p)"
  "liveTracks (startCamera_begin p) = liveTracks p - held_tracks p"
  by (simp_all add: startCamera_begin_def held_tracks_def Let_def split: option.splits)

lemma settle_getUserMedia_frame [frame]:
  "app (settle_getUserMedia r p) = app p"
  "verifications (settle_getUserMedia r p) = verifications p"
  "readers (settle_getUserMedia r p) = readers p"
  "cameraRequests (settle_getUserMedia r p) = cameraRequests p - 1"
  "liveTracks (settle_getUserMedia r p) =
     liveTracks p \<union> (case r of Inl e \<Rightarrow> {} | Inr s \<Rightarrow> set (getTracks s))"
  by (simp_all add: settle_getUserMedia_def split: sum.splits)

lemma startCamera_resume_frame [frame]:
  "isLoading (app (startCamera_resume r pl p)) = isLoading (app p)"
  "uploadedImage (app (startCamera_resume r pl p)) = uploadedImage (app p)"
  "cameraImage (app (startCamera_resume r pl p)) = cameraImage (app p)"
  "verificationResult (app (startCamera_resume r pl p)) = verificationResult (app p)"
  "verifications (startCamera_resume r pl p) = verifications p"
  "readers (startCamera_resume r pl p) = readers p"
  "cameraRequests (startCamera_resume r pl p) = cameraRequests p"
  "liveTracks (startCamera_resume r pl p) = liveTracks p"
  "streamRef (app (startCamera_resume r pl p)) =
     (case r of Inl e \<Rightarrow> streamRef (app p) | Inr s \<Rightarrow> Some s)"
  by (simp_all add: startCamera_resume_def Let_def split: sum.splits option.splits)

lemma click_verify_cases:
  "click_verify p =
     (if verify_disabled (app p) then p
      else p\<lparr>app := (app p)\<lparr>isLoading := True\<rparr>,
             verifications := verifications p @
               [(the (uploadedImage (app p)), the (cameraImage (app p)))]\<rparr>)"
  by (simp add: click_verify_def verify_disabled_def verifyFaces_begin_def)

lemma verifyFaces_resume_cases:
  "(result_of api br up cam = None
      \<and> snd (verifyFaces_resume api br up cam h) = Suspended h)
   \<or> (\<exists>m. result_of api br up cam = Some m
         \<and> snd (verifyFaces_resume api br up cam h) =
             Returned (h\<lparr>verificationResult := Some m, isLoading := False\<rparr>))"
  unfolding result_of_def
  by (cases "snd (verifyFaces_try api br up cam)")
     (auto simp: verifyFaces_resume_def split_def)

lemma step_VerifyDone:
  assumes "step api br p (VerifyDone i) = Some p'"
  shows "i < length (verifications p)
     \<and> (\<exists>m. result_of api br (fst (verifications p ! i)) (snd (verifications p ! i)) = Some m)
     \<and> p' = p\<lparr>app := (app p)\<lparr>verificationResult :=
                  result_of api br (fst (verifications p ! i)) (snd (verifications p ! i)),
                isLoading := False\<rparr>,
            verifications := remove_nth i (verifications p)\<rparr>"
proof -
  obtain up cam where uc: "verifications p ! i = (up, cam)" by (cases "verifications p ! i")
  from verifyFaces_resume_cases [of api br up cam "app p"] assms show ?thesis
    by (auto simp: step_def uc split: if_splits)
qed

text \<open>
  The calls that nothing interrupts are the runs of two events: the click, then the
  continuation.
\<close>

lemma startCamera_run:
  "exec api br p [ClickStartCamera, UserMedia r played] = Some (startCamera r played p)"
  by (simp add: step_def startCamera_def frame)

lemma verifyFaces_run:
  assumes "\<not> verify_disabled (app p)" "verifications p = []"
    and "snd (verifyFaces api br (app p)) = Returned h"
  shows "exec api br p [ClickVerify, VerifyDone 0] = Some (p\<lparr>app := h\<rparr>)"
proof -
  from assms(1) obtain up cam where i: "uploadedImage (app p) = Some up" "up \<noteq> []"
      "cameraImage (app p) = Some cam" "cam \<noteq> []"
    by (auto simp: verify_disabled_def truthy_def split: option.splits)
  show ?thesis
    using assms i
    by (simp add: step_def click_verify_cases verifyFaces_present [OF i] remove_nth_def)
qed

lemma step_one_in_flight:
  assumes "length (verifications p) \<le> 1 \<and> (isLoading (app p) \<longleftrightarrow> verifications p \<noteq> [])"
    and "step api br p ev = Some p'"
  shows "length (verifications p') \<le> 1 \<and> (isLoading (app p') \<longleftrightarrow> verifications p' \<noteq> [])"
proof (cases ev)
  case (VerifyDone i)
  with assms(2) have "i < length (verifications p)" and
    "p' = p\<lparr>app := (app p)\<lparr>verificationResult :=
                  result_of api br (fst (verifications p ! i)) (snd (verifications p ! i)),
                isLoading := False\<rparr>,
            verifications := remove_nth i (verifications p)\<rparr>"
    using step_VerifyDone [of api br p i p'] by simp_all
  with assms(1) show ?thesis by (auto simp: remove_nth_def)
next
  case ClickVerify
  with assms show ?thesis
    by (cases "verify_disabled (app p)")
       (auto simp: step_def click_verify_cases verify_disabled_def)
qed (use assms in \<open>auto simp: step_def frame Let_def split: if_splits option.splits\<close>)

lemma exec_one_in_flight:
  assumes "length (verifications p) \<le> 1 \<and> (isLoading (app p) \<longleftrightarrow> verifications p \<noteq> [])"
    and "exec api br p evs = Some p'"
  shows "length (verifications p') \<le> 1 \<and> (isLoading (app p') \<longleftrightarrow> verifications p' \<noteq> [])"
  using assms
proof (induction evs arbitrary: p)
  case Nil
  then show ?case by simp
next
  case (Cons ev evs)
  from Cons.prems(2) obtain q where q: "step api br p ev = Some q" "exec api br q evs = Some p'"
    by (auto split: option.splits)
  from step_one_in_flight [OF Cons.prems(1) q(1)] q(2) show ?case
    by (rule Cons.IH)
qed

lemma corresponds_cong:
  assumes "verificationResult h' = verificationResult h" "uploadedImage h' = uploadedImage h"
    "cameraImage h' = cameraImage h"
  shows "corresponds api br h' = corresponds api br h"
  using assms by (simp add: corresponds_def split: option.splits)

lemma corresponds_cleared: "verificationResult h = None \<Longrightarrow> corresponds api br h"
  by (simp add: corresponds_def)

lemma reader_onload_cases:
  "reader_onload r h = h \<or>
   (uploadedImage (reader_onload r h) = r \<and> verificationResult (reader_onload r h) = None)"
  by (simp add: reader_onload_def)

lemma captureImage_cases:
  "(verificationResult (captureImage br h) = verificationResult h
      \<and> cameraImage (captureImage br h) = cameraImage h)
   \<or> verificationResult (captureImage br h) = None"
  by (simp add: captureImage_def Let_def split: option.splits)

lemma set_remove_nth: "set (remove_nth i xs) \<subseteq> set xs"
  unfolding remove_nth_def by (auto dest: in_set_takeD in_set_dropD)

lemma step_attributable:
  assumes inv: "attributable api br p"
    and st: "step api br p ev = Some p'"
    and q: "verifications p = [] \<or>
           (uploadedImage (app p') = uploadedImage (app p) \<and>
            cameraImage (app p') = cameraImage (app p))"
  shows "attributable api br p'"
proof (cases ev)
  case (VerifyDone i)
  with st have i: "i < length (verifications p)" and
    p': "p' = p\<lparr>app := (app p)\<lparr>verificationResult :=
                  result_of api br (fst (verifications p ! i)) (snd (verifications p ! i)),
                isLoading := False\<rparr>,
            verifications := remove_nth i (verifications p)\<rparr>"
    and "\<exists>m. result_of api br (fst (verifications p ! i)) (snd (verifications p ! i)) = Some m"
    using step_VerifyDone [of api br p i p'] by simp_all
  then obtain m where
    m: "result_of api br (fst (verifications p ! i)) (snd (verifications p ! i)) = Some m"
    by blast
  from i have "verifications p ! i \<in> set (verifications p)" by simp
  with inv have im: "uploadedImage (app p) = Some (fst (verifications p ! i))"
    "cameraImage (app p) = Some (snd (verifications p ! i))"
    by (auto simp: attributable_def)
  from m im have "corresponds api br (app p')"
    by (simp add: p' corresponds_def)
  moreover have "\<forall>pair \<in> set (verifications p').
           uploadedImage (app p') = Some (fst pair) \<and> cameraImage (app p') = Some (snd pair)"
    using inv set_remove_nth [of i "verifications p"] by (auto simp: p' attributable_def)
  ultimately show ?thesis by (simp add: attributable_def)
next
  case ClickVerify
  show ?thesis
  proof (cases "verify_disabled (app p)")
    case True
    with st ClickVerify inv show ?thesis by (simp add: step_def click_verify_cases)
  next
    case False
    then obtain up cam where "uploadedImage (app p) = Some up" "cameraImage (app p) = Some cam"
      by (auto simp: verify_disabled_def truthy_def split: option.splits)
    moreover have "corresponds api br (app p\<lparr>isLoading := True\<rparr>) = corresponds api br (app p)"
      by (rule corresponds_cong) simp_all
    ultimately show ?thesis
      using False st ClickVerify inv
      by (auto simp: step_def click_verify_cases attributable_def)
  qed
next
  case (ReaderDone i)
  with st have v: "verifications p' = verifications p"
    and c: "cameraImage (app p') = cameraImage (app p)"
    and a: "app p' = app p \<or> verificationResult (app p') = None"
    using reader_onload_cases [of "readAsDataURL br (readers p ! i)" "app p"]
    by (auto simp: step_def Let_def frame split: if_splits option.splits)
  from a inv have "corresponds api br (app p')"
    by (auto simp: attributable_def corresponds_cleared)
  moreover have "\<forall>pair \<in> set (verifications p').
           uploadedImage (app p') = Some (fst pair) \<and> cameraImage (app p') = Some (snd pair)"
    using inv q v by (auto simp: attributable_def)
  ultimately show ?thesis by (simp add: attributable_def)
next
  case ClickCapture
  with st have v: "verifications p' = verifications p"
    and u: "uploadedImage (app p') = uploadedImage (app p)"
    and a: "(verificationResult (app p') = verificationResult (app p)
              \<and> cameraImage (app p') = cameraImage (app p))
            \<or> verificationResult (app p') = None"
    using captureImage_cases [of br "app p"]
    by (auto simp: step_def frame)
  from a u inv have "corresponds api br (app p')"
    using corresponds_cong [of "app p'" "app p" api br]
    by (auto simp: attributable_def corresponds_cleared)
  moreover have "\<forall>pair \<in> set (verifications p').
           uploadedImage (app p') = Some (fst pair) \<and> cameraImage (app p') = Some (snd pair)"
    using inv q v by (auto simp: attributable_def)
  ultimately show ?thesis by (simp add: attributable_def)
next
  case (Upload fs)
  with st inv show ?thesis by (auto simp: step_def attributable_def frame)
next
  case ClickStartCamera
  with st inv show ?thesis by (auto simp: step_def attributable_def frame)
next
  case (UserMedia r pl)
  with st have "verifications p' = verifications p"
    "verificationResult (app p') = verificationResult (app p)"
    "uploadedImage (app p') = uploadedImage (app p)"
    "cameraImage (app p') = cameraImage (app p)"
    by (auto simp: step_def frame split: if_splits)
  with inv show ?thesis
    using corresponds_cong [of "app p'" "app p" api br] by (simp add: attributable_def)
next
  case (VideoSize w h)
  with st have "verifications p' = verifications p"
    "verificationResult (app p') = verificationResult (app p)"
    "uploadedImage (app p') = uploadedImage (app p)"
    "cameraImage (app p') = cameraImage (app p)"
    by (auto simp: step_def split: option.splits)
  with inv show ?thesis
    using corresponds_cong [of "app p'" "app p" api br] by (simp add: attributable_def)
qed

lemma exec_attributable:
  assumes "attributable api br p" "exec api br p evs = Some p'" "quiet api br p evs"
  shows "attributable api br p'"
  using assms
proof (induction evs arbitrary: p)
  case Nil
  then show ?case by simp
next
  case (Cons ev evs)
  from Cons.prems(2) obtain q where q: "step api br p ev = Some q" "exec api br q evs = Some p'"
    by (auto split: option.splits)
  with Cons.prems(3) have s: "verifications p = [] \<or>
           (uploadedImage (app q) = uploadedImage (app p) \<and>
            cameraImage (app q) = cameraImage (app p))" and r: "quiet api br q evs"
    by simp_all
  from step_attributable [OF Cons.prems(1) q(1) s] q(2) r show ?case
    by (rule Cons.IH)
qed

lemma mounted_attributable: "attributable api br mounted"
  by (simp add: attributable_def corresponds_def mounted_def mounted_home_def)

lemma camera_inv_cong:
  assumes "cameraRequests p' = cameraRequests p" "liveTracks p' = liveTracks p"
    "streamRef (app p') = streamRef (app p)"
  shows "camera_inv p' = camera_inv p"
  using assms by (simp add: camera_inv_def held_tracks_def)

lemma step_camera_inv:
  assumes inv: "camera_inv p"
    and st: "step api br p ev = Some p'"
    and s: "ev = ClickStartCamera \<longrightarrow> cameraRequests p = 0"
  shows "camera_inv p'"
proof (cases ev)
  case ClickStartCamera
  with st have p': "p' = startCamera_begin p" by (simp add: step_def)
  from s ClickStartCamera inv have "liveTracks p \<subseteq> held_tracks p" "cameraRequests p = 0"
    by (auto simp: camera_inv_def)
  then show ?thesis
    by (simp add: camera_inv_def p' frame)
next
  case (UserMedia r pl)
  with st have r: "0 < cameraRequests p"
    and p': "p' = startCamera_resume r pl (settle_getUserMedia r p)"
    by (auto simp: step_def split: if_splits)
  from r inv have "cameraRequests p = 1" "liveTracks p = {}"
    by (auto simp: camera_inv_def)
  then show ?thesis
    by (cases r) (simp_all add: camera_inv_def held_tracks_def p' frame)
next
  case (VerifyDone i)
  with st have "p' = p\<lparr>app := (app p)\<lparr>verificationResult :=
                  result_of api br (fst (verifications p ! i)) (snd (verifications p ! i)),
                isLoading := False\<rparr>,
            verifications := remove_nth i (verifications p)\<rparr>"
    using step_VerifyDone [of api br p i p'] by simp
  then have "cameraRequests p' = cameraRequests p" "liveTracks p' = liveTracks p"
    "streamRef (app p') = streamRef (app p)"
    by simp_all
  with inv show ?thesis using camera_inv_cong [of p' p] by simp
next
  case ClickVerify
  with st have "cameraRequests p' = cameraRequests p" "liveTracks p' = liveTracks p"
    "streamRef (app p') = streamRef (app p)"
    by (auto simp: step_def click_verify_cases split: if_splits)
  with inv show ?thesis using camera_inv_cong [of p' p] by simp
next
  case (Upload fs)
  with st have "cameraRequests p' = cameraRequests p" "liveTracks p' = liveTracks p"
    "streamRef (app p') = streamRef (app p)"
    by (auto simp: step_def frame)
  with inv show ?thesis using camera_inv_cong [of p' p] by simp
next
  case (ReaderDone i)
  with st have "cameraRequests p' = cameraRequests p" "liveTracks p' = liveTracks p"
    "streamRef (app p') = streamRef (app p)"
    by (auto simp: step_def Let_def frame split: if_splits option.splits)
  with inv show ?thesis using camera_inv_cong [of p' p] by simp
next
  case (VideoSize w h)
  with st have "cameraRequests p' = cameraRequests p" "liveTracks p' = liveTracks p"
    "streamRef (app p') = streamRef (app p)"
    by (auto simp: step_def split: option.splits)
  with inv show ?thesis using camera_inv_cong [of p' p] by simp
next
  case ClickCapture
  with st have "cameraRequests p' = cameraRequests p" "liveTracks p' = liveTracks p"
    "streamRef (app p') = streamRef (app p)"
    by (auto simp: step_def frame)
  with inv show ?thesis using camera_inv_cong [of p' p] by simp
qed

lemma exec_camera_inv:
  assumes "camera_inv p" "exec api br p evs = Some p'" "serial api br p evs"
  shows "camera_inv p'"
  using assms
proof (induction evs arbitrary: p)
  case Nil
  then show ?case by simp
next
  case (Cons ev evs)
  from Cons.prems(2) obtain q where q: "step api br p ev = Some q" "exec api br q evs = Some p'"
    by (auto split: option.splits)
  with Cons.prems(3) have s: "ev = ClickStartCamera \<longrightarrow> cameraRequests p = 0"
    and r: "serial api br q evs"
    by simp_all
  from step_camera_inv [OF Cons.prems(1) q(1) s] q(2) r show ?case
    by (rule Cons.IH)
qed

lemma mounted_camera_inv: "camera_inv mounted"
  by (simp add: camera_inv_def mounted_def)

lemmas run_defs =
  step_def handleImageUpload_def first_file_def remove_nth_def reader_onload_def truthy_def
  captureImage_def click_verify_def verify_disabled_def verifyFaces_begin_def
  startCamera_begin_def startCamera_resume_def settle_getUserMedia_def
  verifyFaces_resume_def verifyFaces_try_def await_task_def
  demo_decide_zero demo_decide_three_tenths demo_decide_six_tenths
  no_face_message_def error_message_def
  mounted_def mounted_home_def Let_def

lemma demo_browser_sel:
  "readAsDataURL demo_browser f = Some (''data:'' @ f)"
  "getContext2d demo_browser c = True"
  "drawImage demo_browser v c = (if srcObject v = None then c else c\<lparr>pixels := [1]\<rparr>)"
  "toDataURL demo_browser c =
     (if width c = 0 \<or> height c = 0 then ''data:,'' else ''data:image/jpeg;base64,AAAA'')"
  by (simp_all add: demo_browser_def)

lemma demo_api_sel:
  "fetchImage demo_api url = (if url = ''data:gone'' then Inl ''Failed to fetch'' else Inr url)"
  "detectSingleFace demo_api img =
     Inr (if img = ''data:,'' then None
          else Some \<lparr>descriptor = real (count_list img (CHR ''x''))\<rparr>)"
  "euclideanDistance demo_api a b = Inr (fl (\<bar>a - b\<bar> * 3 / 10))"
  by (simp_all add: demo_api_def)

subsection \<open>One verification at a time\<close>

text \<open>
  Claim C6. In every state that the mounted page reaches, at most one call of
  \<open>verifyFaces\<close> is pending, the busy flag is set exactly while one is, and while one is
  pending a click on the verify button calls nothing: the page stays as it is. The button
  is the only caller of \<open>verifyFaces\<close>; the function itself does not look at the flag.
\<close>

theorem one_verification_in_flight:
  assumes "exec api br mounted evs = Some p"
  shows "length (verifications p) \<le> 1
         \<and> (isLoading (app p) \<longleftrightarrow> verifications p \<noteq> [])
         \<and> (verifications p \<noteq> [] \<longrightarrow> step api br p ClickVerify = Some p)"
proof -
  have "length (verifications mounted) \<le> 1
      \<and> (isLoading (app mounted) \<longleftrightarrow> verifications mounted \<noteq> [])"
    by (simp add: mounted_def mounted_home_def)
  from exec_one_in_flight [OF this assms]
  show ?thesis
    by (auto simp: step_def click_verify_def verify_disabled_def)
qed

theorem one_verification_in_flight_witness:
  "\<exists>p. exec demo_api demo_browser mounted
          [Upload (Some [''me'']), ReaderDone 0, ClickCapture, ClickVerify] = Some p
       \<and> verifications p = [(''data:me'', ''data:,'')]
       \<and> isLoading (app p)
       \<and> step demo_api demo_browser p ClickVerify = Some p"
proof -
  define p where "p = mounted
      \<lparr>app := mounted_home
         \<lparr>uploadedImage := Some ''data:me'', cameraImage := Some ''data:,'',
          isLoading := True, canvasRef := Some \<lparr>width = 0, height = 0, pixels = []\<rparr>\<rparr>,
       verifications := [(''data:me'', ''data:,'')]\<rparr>"
  have e: "exec demo_api demo_browser mounted
      [Upload (Some [''me'']), ReaderDone 0, ClickCapture, ClickVerify] = Some p"
    by (simp add: p_def step_def handleImageUpload_def first_file_def remove_nth_def
        reader_onload_def truthy_def captureImage_def click_verify_def verify_disabled_def
        verifyFaces_begin_def mounted_def mounted_home_def demo_browser_def)
  have v: "verifications p = [(''data:me'', ''data:,'')]"
    by (simp add: p_def)
  from one_verification_in_flight [OF e] e v show ?thesis by simp
qed

subsection \<open>Replacing an image\<close>

text \<open>
  Claim C2, as the code has it. The \<open>onload\<close> of the reader stores a non-empty upload and
  clears the result in one update; \<open>captureImage\<close> stores the snapshot and clears the
  result in one update; no event changes either image without leaving the result empty.
  In every run of the mounted page in which no image changes while a call of
  \<open>verifyFaces\<close> is pending, the displayed result is the result of the two images held.
\<close>

theorem replacing_clears_result:
  "(r \<noteq> [] \<longrightarrow>
      reader_onload (Some r) h = h\<lparr>uploadedImage := Some r, verificationResult := None\<rparr>)
   \<and> (canvasRef h = Some c \<and> videoRef h = Some v
       \<and> getContext2d br (c\<lparr>width := videoWidth v, height := videoHeight v\<rparr>) \<longrightarrow>
        cameraImage (captureImage br h) =
          Some (toDataURL br
                 (drawImage br v (c\<lparr>width := videoWidth v, height := videoHeight v\<rparr>)))
        \<and> verificationResult (captureImage br h) = None)
   \<and> (step api br p ev = Some p'
       \<and> (uploadedImage (app p') \<noteq> uploadedImage (app p)
            \<or> cameraImage (app p') \<noteq> cameraImage (app p)) \<longrightarrow>
        verificationResult (app p') = None)
   \<and> (exec api br mounted evs = Some q \<and> quiet api br mounted evs \<longrightarrow>
        corresponds api br (app q))"
proof (intro conjI impI)
  assume "r \<noteq> []"
  then show "reader_onload (Some r) h = h\<lparr>uploadedImage := Some r, verificationResult := None\<rparr>"
    by (simp add: reader_onload_def truthy_def)
next
  assume a: "canvasRef h = Some c \<and> videoRef h = Some v
       \<and> getContext2d br (c\<lparr>width := videoWidth v, height := videoHeight v\<rparr>)"
  then show "cameraImage (captureImage br h) =
          Some (toDataURL br
                 (drawImage br v (c\<lparr>width := videoWidth v, height := videoHeight v\<rparr>)))"
    by (simp add: captureImage_def Let_def)
  from a show "verificationResult (captureImage br h) = None"
    by (simp add: captureImage_def Let_def)
next
  assume a: "step api br p ev = Some p'
       \<and> (uploadedImage (app p') \<noteq> uploadedImage (app p)
            \<or> cameraImage (app p') \<noteq> cameraImage (app p))"
  show "verificationResult (app p') = None"
  proof (cases ev)
    case (ReaderDone i)
    with a show ?thesis
      using reader_onload_cases [of "readAsDataURL br (readers p ! i)" "app p"]
      by (auto simp: step_def Let_def frame split: if_splits option.splits)
  next
    case ClickCapture
    with a show ?thesis
      using captureImage_cases [of br "app p"] by (auto simp: step_def frame)
  next
    case (VerifyDone i)
    with a show ?thesis using step_VerifyDone [of api br p i p'] by auto
  next
    case ClickVerify
    with a show ?thesis by (auto simp: step_def click_verify_cases split: if_splits)
  qed (use a in \<open>auto simp: step_def frame split: if_splits option.splits\<close>)
next
  assume "exec api br mounted evs = Some q \<and> quiet api br mounted evs"
  then have "attributable api br q"
    using exec_attributable [OF mounted_attributable] by blast
  then show "corresponds api br (app q)"
    by (simp add: attributable_def)
qed

theorem replacing_clears_result_witness:
  "exec demo_api demo_browser mounted
     [Upload (Some [''me'']), ReaderDone 0, ClickStartCamera,
      UserMedia (Inr (MediaStream [1])) None, VideoSize 4 3, ClickCapture, ClickVerify,
      VerifyDone 0] = Some fresh_page
   \<and> quiet demo_api demo_browser mounted
     [Upload (Some [''me'']), ReaderDone 0, ClickStartCamera,
      UserMedia (Inr (MediaStream [1])) None, VideoSize 4 3, ClickCapture, ClickVerify,
      VerifyDone 0]
   \<and> corresponds demo_api demo_browser (app fresh_page)
   \<and> reader_onload (Some ''data:xx'') (app fresh_page) =
       (app fresh_page)\<lparr>uploadedImage := Some ''data:xx'', verificationResult := None\<rparr>
   \<and> verificationResult (captureImage demo_browser (app fresh_page)) = None"
proof -
  have e: "exec demo_api demo_browser mounted
     [Upload (Some [''me'']), ReaderDone 0, ClickStartCamera,
      UserMedia (Inr (MediaStream [1])) None, VideoSize 4 3, ClickCapture, ClickVerify,
      VerifyDone 0] = Some fresh_page"
    by (simp add: run_defs demo_browser_sel demo_api_sel fresh_page_def)
  have q: "quiet demo_api demo_browser mounted
     [Upload (Some [''me'']), ReaderDone 0, ClickStartCamera,
      UserMedia (Inr (MediaStream [1])) None, VideoSize 4 3, ClickCapture, ClickVerify,
      VerifyDone 0]"
    by (simp add: run_defs demo_browser_sel demo_api_sel)
  have g: "canvasRef (app fresh_page) = Some \<lparr>width = 4, height = 3, pixels = [1]\<rparr>
      \<and> videoRef (app fresh_page) =
          Some \<lparr>videoWidth = 4, videoHeight = 3, srcObject = Some (MediaStream [1])\<rparr>
      \<and> getContext2d demo_browser
          (\<lparr>width = 4, height = 3, pixels = [1]\<rparr>\<lparr>width := 4, height := 3\<rparr>)"
    by (simp add: fresh_page_def demo_browser_def)
  note t = replacing_clears_result [of "''data:xx''" "app fresh_page"
      "\<lparr>width = 4, height = 3, pixels = [1]\<rparr>"
      "\<lparr>videoWidth = 4, videoHeight = 3, srcObject = Some (MediaStream [1])\<rparr>"
      demo_browser demo_api mounted "Upload None" mounted
      "[Upload (Some [''me'']), ReaderDone 0, ClickStartCamera,
      UserMedia (Inr (MediaStream [1])) None, VideoSize 4 3, ClickCapture, ClickVerify,
      VerifyDone 0]" fresh_page]
  from t e q g show ?thesis by simp
qed

text \<open>
  Without that condition the claim fails: an upload that arrives while \<open>verifyFaces\<close> is
  pending clears the result, and the pending call then writes the result of the images
  it was called on. Here the page ends showing a match beside an uploaded image whose own
  result is no match.
\<close>

theorem stale_result_counterexample:
  "exec demo_api demo_browser mounted
     [Upload (Some [''me'']), ReaderDone 0, ClickStartCamera,
      UserMedia (Inr (MediaStream [1])) None, VideoSize 4 3, ClickCapture, ClickVerify,
      Upload (Some [''xx'']), ReaderDone 0, VerifyDone 0] = Some stale_page
   \<and> result_of demo_api demo_browser ''data:xx'' ''data:image/jpeg;base64,AAAA''
       = Some ''No Match - Different persons detected''
   \<and> \<not> corresponds demo_api demo_browser (app stale_page)"
  by (simp add: run_defs demo_browser_sel demo_api_sel stale_page_def corresponds_def
      result_of_def)

subsection \<open>One camera session\<close>

text \<open>
  Claim C7, as the code has it. \<open>startCamera\<close> stops every track of the stream it holds
  before it asks for a new one. In every run of the mounted page in which \<open>startCamera\<close>
  is called only when no earlier call is waiting for \<open>getUserMedia\<close>, every live track
  belongs to the stream held in \<open>streamRef\<close>.
\<close>

theorem startCamera_one_session:
  "(streamRef (app p) = Some s \<longrightarrow>
      liveTracks (startCamera_begin p) \<inter> set (getTracks s) = {}
      \<and> cameraRequests (startCamera_begin p) = Suc (cameraRequests p))
   \<and> (exec api br mounted evs = Some q \<and> serial api br mounted evs \<longrightarrow> no_leak q)"
proof (intro conjI impI)
  assume "streamRef (app p) = Some s"
  then show "liveTracks (startCamera_begin p) \<inter> set (getTracks s) = {}"
    by (auto simp: startCamera_begin_def)
  show "cameraRequests (startCamera_begin p) = Suc (cameraRequests p)"
    by (simp add: frame)
next
  assume "exec api br mounted evs = Some q \<and> serial api br mounted evs"
  then have "camera_inv q"
    using exec_camera_inv [OF mounted_camera_inv] by blast
  then show "no_leak q"
    by (auto simp: camera_inv_def no_leak_def)
qed

theorem startCamera_one_session_witness:
  "exec demo_api demo_browser mounted
     [ClickStartCamera, UserMedia (Inr (MediaStream [1])) None,
      ClickStartCamera, UserMedia (Inr (MediaStream [2])) None] = Some restarted_page
   \<and> serial demo_api demo_browser mounted
     [ClickStartCamera, UserMedia (Inr (MediaStream [1])) None,
      ClickStartCamera, UserMedia (Inr (MediaStream [2])) None]
   \<and> no_leak restarted_page
   \<and> liveTracks (startCamera_begin restarted_page) \<inter> {2} = {}"
proof -
  have e: "exec demo_api demo_browser mounted
     [ClickStartCamera, UserMedia (Inr (MediaStream [1])) None,
      ClickStartCamera, UserMedia (Inr (MediaStream [2])) None] = Some restarted_page"
    by (simp add: run_defs demo_browser_sel demo_api_sel restarted_page_def)
  have q: "serial demo_api demo_browser mounted
     [ClickStartCamera, UserMedia (Inr (MediaStream [1])) None,
      ClickStartCamera, UserMedia (Inr (MediaStream [2])) None]"
    by (simp add: run_defs demo_browser_sel demo_api_sel)
  have g: "streamRef (app restarted_page) = Some (MediaStream [2])"
    by (simp add: restarted_page_def)
  note t = startCamera_one_session [of restarted_page "MediaStream [2]" demo_api demo_browser
      "[ClickStartCamera, UserMedia (Inr (MediaStream [1])) None,
      ClickStartCamera, UserMedia (Inr (MediaStream [2])) None]" restarted_page]
  from t e q g show ?thesis by simp
qed

text \<open>
  Two calls of \<open>startCamera\<close> that overlap both find \<open>streamRef\<close> empty and stop nothing;
  the stream of the first is overwritten by the second while its track stays live.
\<close>

theorem overlapping_startCamera_counterexample:
  "exec demo_api demo_browser mounted
     [ClickStartCamera, ClickStartCamera, UserMedia (Inr (MediaStream [1])) None,
      UserMedia (Inr (MediaStream [2])) None] = Some leaking_page
   \<and> 1 \<in> liveTracks leaking_page
   \<and> streamRef (app leaking_page) = Some (MediaStream [2])
   \<and> \<not> no_leak leaking_page"
  by (simp add: run_defs demo_browser_sel demo_api_sel leaking_page_def restarted_page_def
      no_leak_def held_tracks_def)

subsection \<open>Capturing\<close>

text \<open>
  Claim C9, as the code has it. \<open>captureImage\<close> leaves the component as it is when the
  canvas or the video element is missing, and leaves the camera image and the result as
  they are when the canvas has no 2D context. Otherwise it gives the canvas the frame
  size of the video, draws the video on it, stores the encoding of the canvas as the
  camera image and clears the result. It does so whether a stream is held or not: what
  \<open>streamRef\<close> holds changes nothing in what it does, and it leaves \<open>streamRef\<close> as it is.
\<close>

theorem captureImage_guard:
  "(canvasRef h = None \<or> videoRef h = None \<longrightarrow> captureImage br h = h)
   \<and> (canvasRef h = Some c \<and> videoRef h = Some v \<longrightarrow>
        (\<not> getContext2d br (c\<lparr>width := videoWidth v, height := videoHeight v\<rparr>) \<longrightarrow>
            cameraImage (captureImage br h) = cameraImage h
            \<and> verificationResult (captureImage br h) = verificationResult h)
        \<and> (getContext2d br (c\<lparr>width := videoWidth v, height := videoHeight v\<rparr>) \<longrightarrow>
            captureImage br h =
              h\<lparr>canvasRef :=
                   Some (drawImage br v (c\<lparr>width := videoWidth v, height := videoHeight v\<rparr>)),
                 cameraImage :=
                   Some (toDataURL br
                     (drawImage br v (c\<lparr>width := videoWidth v, height := videoHeight v\<rparr>))),
                 verificationResult := None\<rparr>))
   \<and> captureImage br (h\<lparr>streamRef := s\<rparr>) = (captureImage br h)\<lparr>streamRef := s\<rparr>"
proof (intro conjI impI)
  assume "canvasRef h = None \<or> videoRef h = None"
  then show "captureImage br h = h"
    by (auto simp: captureImage_def split: option.splits)
next
  assume "canvasRef h = Some c \<and> videoRef h = Some v"
    and "\<not> getContext2d br (c\<lparr>width := videoWidth v, height := videoHeight v\<rparr>)"
  then show "cameraImage (captureImage br h) = cameraImage h"
    and "verificationResult (captureImage br h) = verificationResult h"
    by (simp_all add: captureImage_def Let_def)
next
  assume "canvasRef h = Some c \<and> videoRef h = Some v"
    and "getContext2d br (c\<lparr>width := videoWidth v, height := videoHeight v\<rparr>)"
  then show "captureImage br h =
              h\<lparr>canvasRef :=
                   Some (drawImage br v (c\<lparr>width := videoWidth v, height := videoHeight v\<rparr>)),
                 cameraImage :=
                   Some (toDataURL br
                     (drawImage br v (c\<lparr>width := videoWidth v, height := videoHeight v\<rparr>))),
                 verificationResult := None\<rparr>"
    by (simp add: captureImage_def Let_def)
next
  show "captureImage br (h\<lparr>streamRef := s\<rparr>) = (captureImage br h)\<lparr>streamRef := s\<rparr>"
    by (cases "canvasRef h"; cases "videoRef h") (simp_all add: captureImage_def Let_def)
qed

theorem captureImage_guard_witness:
  "cameraImage (captureImage demo_browser streaming_home) = Some ''data:image/jpeg;base64,AAAA''
   \<and> verificationResult (captureImage demo_browser streaming_home) = None
   \<and> captureImage demo_browser (mounted_home\<lparr>canvasRef := None\<rparr>)
       = mounted_home\<lparr>canvasRef := None\<rparr>"
proof -
  let ?c = "\<lparr>width = 300, height = 300, pixels = []\<rparr>"
  let ?v = "\<lparr>videoWidth = 4, videoHeight = 3, srcObject = Some (MediaStream [1])\<rparr>"
  have g: "canvasRef streaming_home = Some ?c \<and> videoRef streaming_home = Some ?v"
    by (simp add: streaming_home_def mounted_home_def)
  have x: "getContext2d demo_browser (?c\<lparr>width := videoWidth ?v, height := videoHeight ?v\<rparr>)"
    by (simp add: demo_browser_def)
  have "captureImage demo_browser streaming_home =
      streaming_home
        \<lparr>canvasRef :=
           Some (drawImage demo_browser ?v
                  (?c\<lparr>width := videoWidth ?v, height := videoHeight ?v\<rparr>)),
         cameraImage :=
           Some (toDataURL demo_browser
                  (drawImage demo_browser ?v
                    (?c\<lparr>width := videoWidth ?v, height := videoHeight ?v\<rparr>))),
         verificationResult := None\<rparr>"
    using captureImage_guard [of streaming_home demo_browser ?c ?v None] g x by blast
  then have a: "cameraImage (captureImage demo_browser streaming_home) =
        Some ''data:image/jpeg;base64,AAAA''
      \<and> verificationResult (captureImage demo_browser streaming_home) = None"
    by (simp add: demo_browser_def)
  have "canvasRef (mounted_home\<lparr>canvasRef := None\<rparr>) = None" by simp
  then have b: "captureImage demo_browser (mounted_home\<lparr>canvasRef := None\<rparr>)
       = mounted_home\<lparr>canvasRef := None\<rparr>"
    using captureImage_guard [of "mounted_home\<lparr>canvasRef := None\<rparr>" demo_browser ?c ?v None]
    by blast
  from a b show ?thesis by blast
qed

text \<open>
  On the page as mounted, where the camera was never started, a capture stores the
  encoding of an empty canvas as the camera image.
\<close>

theorem capture_without_stream_counterexample:
  "streamRef mounted_home = None \<and> cameraImage mounted_home = None
   \<and> cameraImage (captureImage demo_browser mounted_home) = Some ''data:,''"
  by (simp add: captureImage_def mounted_home_def demo_browser_def)

subsection \<open>An upload without a file\<close>

text \<open>
  Claim C10. When the file list of the upload event is absent or empty,
  \<open>handleImageUpload\<close> leaves the whole page as it is: the uploaded image, the camera
  image and the result keep their values, and no reader is started.
\<close>

theorem handleImageUpload_no_file:
  "handleImageUpload None p = p \<and> handleImageUpload (Some []) p = p
   \<and> step api br p (Upload None) = Some p \<and> step api br p (Upload (Some [])) = Some p"
  by (simp add: handleImageUpload_def first_file_def step_def)

end
